theory Spec2Isabelle
  imports Main "HOL-Library.Char_ord" "HOL-Library.List_Lexorder"
begin

section \<open>Python strings\<close>

text \<open>
  A Python \<open>str\<close> is modelled as a \<open>string\<close> whose characters are code points
  below 256. \<open>isspace\<close> lists the code points in that range for which
  \<open>str.isspace()\<close> is true; \<open>strip\<close> is \<open>str.strip()\<close> without arguments.
\<close>

definition isspace :: "char \<Rightarrow> bool" where
  "isspace c = ((of_char c :: nat) \<in> set [9, 10, 11, 12, 13, 28, 29, 30, 31, 32, 133, 160])"

definition strip :: "string \<Rightarrow> string" where
  "strip s = rev (dropWhile isspace (rev (dropWhile isspace s)))"

definition startswith :: "string \<Rightarrow> string \<Rightarrow> bool" where
  "startswith s p = (take (length p) s = p)"

definition endswith :: "string \<Rightarrow> string \<Rightarrow> bool" where
  "endswith s p = (length p \<le> length s \<and> drop (length s - length p) s = p)"

definition lower_char :: "char \<Rightarrow> char" where
  "lower_char c =
     (let n = (of_char c :: nat)
      in if (65 \<le> n \<and> n \<le> 90) \<or> (192 \<le> n \<and> n \<le> 222 \<and> n \<noteq> 215)
         then char_of (n + 32) else c)"

definition lower :: "string \<Rightarrow> string" where
  "lower s = map lower_char s"

definition digit_char :: "nat \<Rightarrow> char" where
  "digit_char d = char_of (48 + d)"

fun str_nat :: "nat \<Rightarrow> string" where
  "str_nat n = (if n < 10 then [digit_char n] else str_nat (n div 10) @ [digit_char (n mod 10)])"

definition str_int :: "int \<Rightarrow> string" where
  "str_int i = (if i < 0 then CHR ''-'' # str_nat (nat (- i)) else str_nat (nat i))"

text \<open>\<open>' '.join(cmd)\<close>\<close>

fun join_space :: "string list \<Rightarrow> string" where
  "join_space [] = []"
| "join_space [x] = x"
| "join_space (x # y # ys) = x @ '' '' @ join_space (y # ys)"

text \<open>
  Text-mode reading with the default \<open>newline=None\<close>: \<open>\r\n\<close> and a lone
  \<open>\r\<close> arrive as \<open>\n\<close>, and iterating the file yields the lines with
  their terminator, the last one possibly without.
\<close>

fun universal_newlines :: "string \<Rightarrow> string" where
  "universal_newlines [] = []"
| "universal_newlines [c] = (if c = CHR 0x0D then [CHR 0x0A] else [c])"
| "universal_newlines (c # d # cs) =
     (if c = CHR 0x0D \<and> d = CHR 0x0A then CHR 0x0A # universal_newlines cs
      else if c = CHR 0x0D then CHR 0x0A # universal_newlines (d # cs)
      else c # universal_newlines (d # cs))"

fun readlines :: "string \<Rightarrow> string \<Rightarrow> string list" where
  "readlines acc [] = (if acc = [] then [] else [acc])"
| "readlines acc (c # cs) =
     (if c = CHR 0x0A then (acc @ [c]) # readlines [] cs else readlines (acc @ [c]) cs)"

section \<open>The world outside the program\<close>

text \<open>
  Exceptions carry their class, as far as an \<open>except\<close> clause of the program
  tells classes apart, and the text \<open>str(e)\<close>. Every class here is a subclass of
  \<open>Exception\<close>.
\<close>

datatype exc_class = FileNotFoundError | CalledProcessError | TimeoutExpired | OSError
  | ValueError | OverflowError | EOFError | OtherError

datatype exc = Exc exc_class string

fun exc_cls :: "exc \<Rightarrow> exc_class" where
  "exc_cls (Exc c m) = c"

fun exc_str :: "exc \<Rightarrow> string" where
  "exc_str (Exc c m) = m"

text \<open>
  The external actions of the program, in the order it attempts them. A process
  handle is the position of its \<open>Popen\<close> in the trace.
\<close>

datatype event =
    LogWrite string
  | HttpGet "(string \<times> string) list option" int
  | SockConnect string nat int
  | SockSend string
  | SockRecv
  | SockClose
  | Input string
  | CheckCall "string list"
  | Popen "string list"
  | Poll nat
  | Terminate nat
  | WaitProc nat int
  | Kill nat
  | Sleep int
  | OpenRead string
  | ListDir string

text \<open>
  What the outside answers to the action at position \<open>n\<close> of the trace: whether it
  raises, the text it returns (a response body, a line read from a socket or the
  terminal, a file's decoded content), a directory listing, a process's return code
  (\<open>None\<close> while it runs), the milliseconds it takes beyond its nominal duration,
  and whether SIGINT or SIGTERM is delivered while it runs.
\<close>

record env =
  fault :: "nat \<Rightarrow> exc option"
  reply :: "nat \<Rightarrow> string"
  listing :: "nat \<Rightarrow> string list"
  status :: "nat \<Rightarrow> int option"
  took :: "nat \<Rightarrow> nat"
  signal :: "nat \<Rightarrow> bool"

text \<open>
  The state: the trace, a clock in milliseconds (what \<open>time.time()\<close> reads), and
  \<open>AutoChanger.stop_event\<close>.
\<close>

record world =
  trace :: "event list"
  clock :: int
  stop_event :: bool

type_synonym 'a io = "world \<Rightarrow> (exc + 'a) \<times> world"

definition io_return :: "'a \<Rightarrow> 'a io" where
  "io_return x w = (Inr x, w)"

definition io_raise :: "exc \<Rightarrow> 'a io" where
  "io_raise e w = (Inl e, w)"

definition io_bind :: "'a io \<Rightarrow> ('a \<Rightarrow> 'b io) \<Rightarrow> 'b io" where
  "io_bind m f w = (case m w of (Inl e, w') \<Rightarrow> (Inl e, w') | (Inr x, w') \<Rightarrow> f x w')"

text \<open>\<open>try: m except Exception as e: h e\<close>\<close>

definition io_try :: "'a io \<Rightarrow> (exc \<Rightarrow> 'a io) \<Rightarrow> 'a io" where
  "io_try m h w = (case m w of (Inl e, w') \<Rightarrow> h e w' | (Inr x, w') \<Rightarrow> (Inr x, w'))"

text \<open>
  \<open>time.sleep\<close>, once its argument is accepted (see \<open>sleep\<close> below), and
  \<open>Popen.poll\<close> do not raise of their own.
\<close>

fun can_raise :: "event \<Rightarrow> bool" where
  "can_raise (Sleep d) = False"
| "can_raise (Poll p) = False"
| "can_raise e = True"

text \<open>
  One external action before the signal handlers are installed: it is appended to
  the trace, takes its nominal duration and what the outside adds, and raises or
  returns its position in the trace.
\<close>

definition raw_step :: "env \<Rightarrow> event \<Rightarrow> int \<Rightarrow> nat io" where
  "raw_step env e d w =
     (let n = length (trace w);
          w1 = w\<lparr>trace := trace w @ [e], clock := clock w + d + int (took env n)\<rparr>
      in case (if can_raise e then fault env n else None) of
           Some x \<Rightarrow> (Inl x, w1)
         | None \<Rightarrow> (Inr n, w1))"

text \<open>
  \<open>log(msg)\<close>: the timestamped line appended to the log file and \<open>msg\<close> printed
  are one action; the timestamp is left out of the model.
\<close>

definition raw_log :: "env \<Rightarrow> string \<Rightarrow> unit io" where
  "raw_log env msg = io_bind (raw_step env (LogWrite msg) 0) (\<lambda>_. io_return ())"

text \<open>
  \<open>AutoChanger._signal_handler\<close>: log, then set the event. The handler runs in
  the main thread; an exception of its \<open>log\<close> surfaces there and leaves the event
  unset.
\<close>

definition signal_handler :: "env \<Rightarrow> unit io" where
  "signal_handler env =
     io_bind (raw_log env ''Interrupt received, stopping...'')
       (\<lambda>_ w. (Inr (), w\<lparr>stop_event := True\<rparr>))"

text \<open>
  One external action once the handlers are installed. A signal delivered while the
  action runs starts the handler; the action then completes (the interpreter resumes
  an interrupted call when the handler returns normally). A signal that arrives while
  the handler itself runs coalesces with the one being handled.
\<close>

definition step :: "env \<Rightarrow> event \<Rightarrow> int \<Rightarrow> nat io" where
  "step env e d w =
     (if signal env (length (trace w)) then
        (case raw_step env e d w of
           (r, w1) \<Rightarrow>
             (case signal_handler env w1 of
                (Inl x, w2) \<Rightarrow> (Inl x, w2)
              | (Inr _, w2) \<Rightarrow> (r, w2)))
      else raw_step env e d w)"

definition log :: "env \<Rightarrow> string \<Rightarrow> unit io" where
  "log env msg = io_bind (step env (LogWrite msg) 0) (\<lambda>_. io_return ())"

text \<open>
  \<open>time.sleep(secs)\<close>, in milliseconds. The interpreter converts the length to a
  64-bit count of nanoseconds first: a length beyond 9223372036 seconds, of either
  sign, is an OverflowError. A negative length within that range is a ValueError.
\<close>

definition sleep :: "env \<Rightarrow> int \<Rightarrow> unit io" where
  "sleep env ms =
     (if ms < - 9223372036000 \<or> 9223372036000 < ms
      then io_raise (Exc OverflowError ''timestamp too large to convert to C _PyTime_t'')
      else if ms < 0 then io_raise (Exc ValueError ''sleep length must be non-negative'')
      else io_bind (step env (Sleep ms) ms) (\<lambda>_. io_return ()))"

text \<open>\<open>requests.get(url, proxies=proxies, timeout=timeout).text\<close>\<close>

definition requests_get :: "env \<Rightarrow> (string \<times> string) list option \<Rightarrow> int \<Rightarrow> string io" where
  "requests_get env proxies timeout =
     io_bind (step env (HttpGet proxies timeout) 0) (\<lambda>n. io_return (reply env n))"

section \<open>IP probe\<close>

definition check_ip :: "env \<Rightarrow> (string \<times> string) list option \<Rightarrow> int \<Rightarrow> string io" where
  "check_ip env proxies timeout =
     io_try
       (io_bind (requests_get env proxies timeout) (\<lambda>text.
          let ip = strip text in io_return ip))
       (\<lambda>e. io_return (''ERROR: '' @ exc_str e))"

section \<open>Proxy rotation\<close>

text \<open>\<open>open(path, "r", encoding="utf-8")\<close> and the iteration over its lines.\<close>

definition open_lines :: "env \<Rightarrow> string \<Rightarrow> string list io" where
  "open_lines env path =
     io_bind (step env (OpenRead path) 0)
       (\<lambda>n. io_return (readlines [] (universal_newlines (reply env n))))"

fun load_loop :: "string list \<Rightarrow> string list \<Rightarrow> string list" where
  "load_loop proxies [] = proxies"
| "load_loop proxies (line # rest) =
     (let s = strip line
      in if s = [] \<or> startswith s ''#'' then load_loop proxies rest
         else load_loop (proxies @ [s]) rest)"

definition load_proxy_list :: "env \<Rightarrow> string \<Rightarrow> string list io" where
  "load_proxy_list env path =
     io_bind (open_lines env path) (\<lambda>ls. io_return (load_loop [] ls))"

definition proxy_to_requests_proxies :: "string \<Rightarrow> (string \<times> string) list" where
  "proxy_to_requests_proxies proxy_url = [(''http'', proxy_url), (''https'', proxy_url)]"

section \<open>Tor\<close>

definition sock_connect :: "env \<Rightarrow> string \<Rightarrow> nat \<Rightarrow> int \<Rightarrow> unit io" where
  "sock_connect env host port timeout =
     io_bind (step env (SockConnect host port timeout) 0) (\<lambda>_. io_return ())"

text \<open>\<open>s_file.write(data)\<close> followed by \<open>s_file.flush()\<close>\<close>

definition sock_send :: "env \<Rightarrow> string \<Rightarrow> unit io" where
  "sock_send env data = io_bind (step env (SockSend data) 0) (\<lambda>_. io_return ())"

definition sock_readline :: "env \<Rightarrow> string io" where
  "sock_readline env = io_bind (step env SockRecv 0) (\<lambda>n. io_return (reply env n))"

definition sock_close :: "env \<Rightarrow> unit io" where
  "sock_close env = io_bind (step env SockClose 0) (\<lambda>_. io_return ())"

definition crlf :: string where
  "crlf = [CHR 0x0D, CHR 0x0A]"

text \<open>The truth value of an optional string: \<open>None\<close> and \<open>""\<close> are false.\<close>

fun truthy :: "string option \<Rightarrow> bool" where
  "truthy None = False"
| "truthy (Some s) = (s \<noteq> [])"

definition tor_newnym_via_control ::
  "env \<Rightarrow> string \<Rightarrow> nat \<Rightarrow> string option \<Rightarrow> int \<Rightarrow> bool io" where
  "tor_newnym_via_control env control_host control_port password timeout =
     io_try
       (io_bind (sock_connect env control_host control_port timeout) (\<lambda>_.
        io_bind (sock_send env
                   (if truthy password
                    then ''AUTHENTICATE '' @ [CHR 0x22] @ the password @ [CHR 0x22] @ crlf
                    else ''AUTHENTICATE'' @ crlf)) (\<lambda>_.
        io_bind (sock_readline env) (\<lambda>auth_resp.
          if \<not> startswith auth_resp ''250'' then
            io_bind (log env (''Tor control auth failed: '' @ strip auth_resp)) (\<lambda>_.
            io_bind (sock_close env) (\<lambda>_.
            io_return False))
          else
            io_bind (sock_send env (''SIGNAL NEWNYM'' @ crlf)) (\<lambda>_.
            io_bind (sock_readline env) (\<lambda>resp.
            io_bind (sock_close env) (\<lambda>_.
              if startswith resp ''250'' then io_return True
              else
                io_bind (log env (''Tor control SIGNAL response: '' @ strip resp)) (\<lambda>_.
                io_return False))))))))
       (\<lambda>e. io_bind (log env (''Tor control error: '' @ exc_str e)) (\<lambda>_. io_return False))"

definition input_line :: "env \<Rightarrow> string \<Rightarrow> string io" where
  "input_line env prompt = io_bind (step env (Input prompt) 0) (\<lambda>n. io_return (reply env n))"

definition check_call :: "env \<Rightarrow> string list \<Rightarrow> unit io" where
  "check_call env cmd = io_bind (step env (CheckCall cmd) 0) (\<lambda>_. io_return ())"

text \<open>
  The \<open>for cmd in cmd_try\<close> loop of \<open>tor_reload_service\<close> and what follows it.
  The \<open>try\<close> of one pass yields \<open>Some True\<close> where it returns and \<open>None\<close>
  where its handler continues with the next command.
\<close>

fun restart_loop :: "env \<Rightarrow> string list list \<Rightarrow> bool io" where
  "restart_loop env [] =
     io_bind (log env ''Could not restart tor service automatically. Please restart tor manually.'')
       (\<lambda>_. io_return False)"
| "restart_loop env (cmd # rest) =
     io_bind
       (io_try
          (io_bind (check_call env ([''sudo''] @ cmd)) (\<lambda>_.
           io_bind (log env (''Ran: sudo '' @ join_space cmd)) (\<lambda>_.
           io_return (Some True))))
          (\<lambda>e. if exc_cls e = CalledProcessError \<or> exc_cls e = FileNotFoundError
               then io_return None else io_raise e))
       (\<lambda>r. case r of Some b \<Rightarrow> io_return b | None \<Rightarrow> restart_loop env rest)"

definition tor_reload_service :: "env \<Rightarrow> bool io" where
  "tor_reload_service env =
     io_bind (log env ''Attempting to restart 'tor' service (requires sudo).'') (\<lambda>_.
     io_bind (input_line env
        ''This will run 'sudo systemctl restart tor' (or 'service tor restart'). Continue? [y/N] >> '')
       (\<lambda>answer.
       let ans = lower (strip answer)
       in if ans \<noteq> ''y'' then
            io_bind (log env ''User declined to restart tor service.'') (\<lambda>_. io_return False)
          else
            restart_loop env
              [[''systemctl'', ''restart'', ''tor''], [''service'', ''tor'', ''restart'']]))"

definition tor_change_identity :: "env \<Rightarrow> string option \<Rightarrow> bool io" where
  "tor_change_identity env control_password =
     io_bind (tor_newnym_via_control env ''127.0.0.1'' 9051 control_password 5) (\<lambda>ok.
       if ok then
         io_bind (log env ''Requested NEWNYM via Tor control port.'') (\<lambda>_. io_return True)
       else
         io_bind (log env ''Tor control port NEWNYM failed; falling back to service restart.'')
           (\<lambda>_. tor_reload_service env))"

section \<open>VPN\<close>

text \<open>\<open>os.path.join\<close> of two components, on POSIX.\<close>

definition path_join :: "string \<Rightarrow> string \<Rightarrow> string" where
  "path_join a p =
     (if startswith p ''/'' then p
      else if a = [] \<or> endswith a ''/'' then a @ p
      else a @ ''/'' @ p)"

definition listdir :: "env \<Rightarrow> string \<Rightarrow> string list io" where
  "listdir env dirpath = io_bind (step env (ListDir dirpath) 0) (\<lambda>n. io_return (listing env n))"

definition find_ovpn_files :: "env \<Rightarrow> string \<Rightarrow> string list io" where
  "find_ovpn_files env dirpath =
     io_bind (listdir env dirpath) (\<lambda>names.
       io_return (map (path_join dirpath)
                    (filter (\<lambda>p. endswith (lower p) ''.ovpn'') (sort names))))"

definition popen :: "env \<Rightarrow> string list \<Rightarrow> nat io" where
  "popen env cmd = step env (Popen cmd) 0"

definition poll :: "env \<Rightarrow> nat \<Rightarrow> int option io" where
  "poll env p = io_bind (step env (Poll p) 0) (\<lambda>n. io_return (status env n))"

definition terminate :: "env \<Rightarrow> nat \<Rightarrow> unit io" where
  "terminate env p = io_bind (step env (Terminate p) 0) (\<lambda>_. io_return ())"

text \<open>\<open>p.wait(timeout=secs)\<close>: raises TimeoutExpired when the process outlives it.\<close>

definition wait_proc :: "env \<Rightarrow> nat \<Rightarrow> int \<Rightarrow> unit io" where
  "wait_proc env p secs = io_bind (step env (WaitProc p secs) 0) (\<lambda>_. io_return ())"

definition kill :: "env \<Rightarrow> nat \<Rightarrow> unit io" where
  "kill env p = io_bind (step env (Kill p) 0) (\<lambda>_. io_return ())"

definition start_openvpn :: "env \<Rightarrow> string \<Rightarrow> nat option io" where
  "start_openvpn env config_path =
     io_bind (log env (''Starting OpenVPN config: '' @ config_path)) (\<lambda>_.
     io_try
       (io_bind (popen env [''sudo'', ''openvpn'', ''--config'', config_path]) (\<lambda>p.
        io_bind (sleep env 2000) (\<lambda>_.
        io_bind (poll env p) (\<lambda>returncode.
          case returncode of
            None \<Rightarrow>
              io_bind (log env ''OpenVPN process started.'') (\<lambda>_. io_return (Some p))
          | Some rc \<Rightarrow>
              io_bind (log env (''OpenVPN process exited quickly. Returncode: '' @ str_int rc))
                (\<lambda>_. io_return None)))))
       (\<lambda>e. if exc_cls e = FileNotFoundError then
              io_bind (log env ''openvpn binary not found. Install OpenVPN (e.g. apt install openvpn).'')
                (\<lambda>_. io_return None)
            else
              io_bind (log env (''Failed to start openvpn: '' @ exc_str e)) (\<lambda>_. io_return None)))"

definition stop_process :: "env \<Rightarrow> nat \<Rightarrow> unit io" where
  "stop_process env p =
     io_try
       (io_bind (terminate env p) (\<lambda>_.
        io_bind (wait_proc env p 10) (\<lambda>_.
        log env ''VPN process terminated.'')))
       (\<lambda>_. io_bind (io_try (kill env p) (\<lambda>_. io_return ())) (\<lambda>_.
            log env ''VPN process killed.''))"

section \<open>Orchestration\<close>

datatype mode_t = Tor | Proxy | Vpn | All

fun mode_str :: "mode_t \<Rightarrow> string" where
  "mode_str Tor = ''tor''"
| "mode_str Proxy = ''proxy''"
| "mode_str Vpn = ''vpn''"
| "mode_str All = ''all''"

text \<open>The namespace \<open>parse_args\<close> returns; the times are in seconds.\<close>

record args =
  mode :: mode_t
  interval :: int
  wait_after_change :: int
  proxy_list :: "string option"
  ovpn_dir :: "string option"
  tor_control_password :: "string option"
  count :: int
  run_once :: bool
  dry_run :: bool
  logfile :: string

definition run_once_tor :: "env \<Rightarrow> args \<Rightarrow> unit io" where
  "run_once_tor env a =
     io_bind (check_ip env None 10) (\<lambda>before.
     io_bind (log env (''IP before (direct): '' @ before)) (\<lambda>_.
     io_bind (tor_change_identity env (tor_control_password a)) (\<lambda>ok.
       if \<not> ok then log env ''TOR identity change did not complete.''
       else
         io_bind (sleep env (1000 * wait_after_change a)) (\<lambda>_.
         io_try
           (io_bind (check_ip env
                       (Some [(''http'', ''socks5h://127.0.0.1:9050''),
                              (''https'', ''socks5h://127.0.0.1:9050'')]) 10) (\<lambda>after.
            log env (''IP after (via TOR): '' @ after)))
           (\<lambda>e. log env (''Failed to check IP via tor: '' @ exc_str e))))))"

definition run_once_proxy :: "env \<Rightarrow> args \<Rightarrow> string \<Rightarrow> unit io" where
  "run_once_proxy env a proxy_url =
     io_bind (check_ip env None 10) (\<lambda>before.
     io_bind (log env (''IP before (direct): '' @ before)) (\<lambda>_.
       let proxies = proxy_to_requests_proxies proxy_url in
       io_bind (sleep env (1000 * wait_after_change a)) (\<lambda>_.
       io_bind (check_ip env (Some proxies) 10) (\<lambda>after.
       log env (''IP via proxy '' @ proxy_url @ '': '' @ after)))))"

definition run_once_vpn :: "env \<Rightarrow> args \<Rightarrow> string \<Rightarrow> unit io" where
  "run_once_vpn env a ovpn_path =
     io_bind (check_ip env None 10) (\<lambda>before.
     io_bind (log env (''IP before (direct): '' @ before)) (\<lambda>_.
     io_bind (start_openvpn env ovpn_path) (\<lambda>started.
       case started of
         None \<Rightarrow> log env ''OpenVPN failed to start for this config.''
       | Some p \<Rightarrow>
           let wait = max 5 (wait_after_change a) in
           io_bind (log env (''Sleeping '' @ str_int wait @ '' seconds for VPN to establish...''))
             (\<lambda>_.
           io_bind (sleep env (1000 * wait)) (\<lambda>_.
           io_bind (check_ip env None 10) (\<lambda>after.
           io_bind (log env (''IP after VPN: '' @ after)) (\<lambda>_.
           io_bind (stop_process env p) (\<lambda>_.
           sleep env 2000))))))))"

text \<open>
  The loop of \<open>_wait_or_stop\<close>, entered with \<open>start\<close> and \<open>total\<close> in
  milliseconds (\<open>total\<close> is written \<open>total_ms\<close> here and \<open>total_s\<close> in
  \<open>wait_or_stop\<close>).
\<close>

function wait_loop :: "env \<Rightarrow> int \<Rightarrow> int \<Rightarrow> unit io" where
  "wait_loop env total_ms start w =
     (if clock w - start < total_ms then
        (if stop_event w then (Inr (), w)
         else (case sleep env 500 w of
                 (Inl e, w') \<Rightarrow> (Inl e, w')
               | (Inr u, w') \<Rightarrow> wait_loop env total_ms start w'))
      else (Inr (), w))"
  by pat_completeness auto
termination
  by (relation "measure (\<lambda>(env, total_ms, start, w). nat (start + total_ms - clock w))")
     (auto simp: sleep_def step_def raw_step_def signal_handler_def raw_log_def
                 io_bind_def io_return_def Let_def
           split: if_splits option.splits sum.splits prod.splits)

definition wait_or_stop :: "env \<Rightarrow> args \<Rightarrow> unit io" where
  "wait_or_stop env a w =
     (let total_s = interval a; start = clock w
      in wait_loop env (1000 * total_s) start w)"

text \<open>The two \<open>for\<close> loops of \<open>run_loop\<close>.\<close>

fun proxy_loop :: "env \<Rightarrow> args \<Rightarrow> string list \<Rightarrow> unit io" where
  "proxy_loop env a [] w = (Inr (), w)"
| "proxy_loop env a (purl # rest) w =
     (if stop_event w then (Inr (), w)
      else
        io_bind (log env (''Using proxy: '' @ purl)) (\<lambda>_.
        io_bind (run_once_proxy env a purl) (\<lambda>_.
        io_bind (wait_or_stop env a) (\<lambda>_.
        proxy_loop env a rest))) w)"

fun vpn_loop :: "env \<Rightarrow> args \<Rightarrow> string list \<Rightarrow> unit io" where
  "vpn_loop env a [] w = (Inr (), w)"
| "vpn_loop env a (cfg # rest) w =
     (if stop_event w then (Inr (), w)
      else
        io_bind (log env (''Using VPN config: '' @ cfg)) (\<lambda>_.
        io_bind (run_once_vpn env a cfg) (\<lambda>_.
        io_bind (wait_or_stop env a) (\<lambda>_.
        vpn_loop env a rest))) w)"

text \<open>
  One pass of the \<open>while\<close> loop, entered with the incremented \<open>iteration\<close>; it
  returns whether the pass ends in \<open>break\<close>.
\<close>

definition iteration_body :: "env \<Rightarrow> args \<Rightarrow> string list \<Rightarrow> string list \<Rightarrow> int \<Rightarrow> bool io" where
  "iteration_body env a proxies ovpns iteration =
     io_bind (log env (''--- Iteration '' @ str_int iteration @ '' ---'')) (\<lambda>_.
     io_bind (if mode a = Tor \<or> mode a = All
              then io_bind (log env ''Running TOR change...'') (\<lambda>_. run_once_tor env a)
              else io_return ()) (\<lambda>_.
     io_bind (if (mode a = Proxy \<or> mode a = All) \<and> proxies \<noteq> []
              then proxy_loop env a proxies else io_return ()) (\<lambda>_.
     io_bind (if (mode a = Vpn \<or> mode a = All) \<and> ovpns \<noteq> []
              then vpn_loop env a ovpns else io_return ()) (\<lambda>_.
     io_bind (if mode a = Proxy \<and> proxies = []
              then io_bind (log env ''No proxies provided; sleeping.'') (\<lambda>_. wait_or_stop env a)
              else io_return ()) (\<lambda>_.
     io_bind (if mode a = Vpn \<and> ovpns = []
              then io_bind (log env ''No .ovpn files provided; sleeping.'') (\<lambda>_. wait_or_stop env a)
              else io_return ()) (\<lambda>_.
       if run_once a then
         io_bind (log env ''run_once specified; exiting loop.'') (\<lambda>_. io_return True)
       else if count a \<noteq> 0 \<and> iteration \<ge> count a then
         io_bind (log env (''Reached count '' @ str_int (count a) @ '', exiting.''))
           (\<lambda>_. io_return True)
       else io_return False))))))"

text \<open>
  The \<open>while not self.stop_event.is_set()\<close> loop, with fuel for the number of
  passes: \<open>None\<close> when the fuel does not suffice, else the outcome and the value of
  \<open>iteration\<close> at the exit.
\<close>

fun while_loop ::
  "nat \<Rightarrow> env \<Rightarrow> args \<Rightarrow> string list \<Rightarrow> string list \<Rightarrow> int \<Rightarrow> world
     \<Rightarrow> ((exc + int) \<times> world) option" where
  "while_loop 0 env a proxies ovpns iteration w = None"
| "while_loop (Suc fuel) env a proxies ovpns iteration w =
     (if stop_event w then Some (Inr iteration, w)
      else (case iteration_body env a proxies ovpns (iteration + 1) w of
              (Inl e, w') \<Rightarrow> Some (Inl e, w')
            | (Inr brk, w') \<Rightarrow>
                if brk then Some (Inr (iteration + 1), w')
                else while_loop fuel env a proxies ovpns (iteration + 1) w'))"

text \<open>The part of \<open>run_loop\<close> before the loop: the two lists.\<close>

definition prepare_lists :: "env \<Rightarrow> args \<Rightarrow> (string list \<times> string list) io" where
  "prepare_lists env a =
     io_bind (if truthy (proxy_list a) then
                io_bind (load_proxy_list env (the (proxy_list a))) (\<lambda>proxies.
                io_bind (log env (''Loaded '' @ str_nat (length proxies) @ '' proxies from ''
                                   @ the (proxy_list a))) (\<lambda>_.
                io_return proxies))
              else io_return []) (\<lambda>proxies.
     io_bind (if truthy (ovpn_dir a) then
                io_bind (find_ovpn_files env (the (ovpn_dir a))) (\<lambda>ovpns.
                io_bind (log env (''Found '' @ str_nat (length ovpns) @ '' .ovpn files in ''
                                   @ the (ovpn_dir a))) (\<lambda>_.
                io_return ovpns))
              else io_return []) (\<lambda>ovpns.
     io_return (proxies, ovpns)))"

definition run_loop :: "nat \<Rightarrow> env \<Rightarrow> args \<Rightarrow> world \<Rightarrow> ((exc + unit) \<times> world) option" where
  "run_loop fuel env a w =
     (case prepare_lists env a w of
        (Inl e, w') \<Rightarrow> Some (Inl e, w')
      | (Inr (proxies, ovpns), w') \<Rightarrow>
          (case while_loop fuel env a proxies ovpns 0 w' of
             None \<Rightarrow> None
           | Some (Inl e, w'') \<Rightarrow> Some (Inl e, w'')
           | Some (Inr iteration, w'') \<Rightarrow> Some (log env ''AutoChanger finished.'' w'')))"

section \<open>Command line\<close>

text \<open>
  \<open>main\<close> from the parsed arguments on. \<open>AutoChanger.__init__\<close> creates the
  event unset and installs the handlers; the actions before it run without them.
\<close>

definition main :: "nat \<Rightarrow> env \<Rightarrow> args \<Rightarrow> world \<Rightarrow> ((exc + unit) \<times> world) option" where
  "main fuel env a w =
     (case io_bind (raw_log env (''AutoChanger started. Mode: '' @ mode_str (mode a))) (\<lambda>_.
             if dry_run a
             then raw_log env ''Dry-run mode enabled. Privileged actions will NOT run.''
             else io_return ()) w of
        (Inl e, w') \<Rightarrow> Some (Inl e, w')
      | (Inr u, w') \<Rightarrow>
          (case run_loop fuel env a (w'\<lparr>stop_event := False\<rparr>) of
             None \<Rightarrow> None
           | Some (Inl e, w'') \<Rightarrow>
               Some (io_bind (log env (''Fatal error: '' @ exc_str e)) (\<lambda>_. io_raise e) w'')
           | Some (Inr u, w'') \<Rightarrow> Some (Inr u, w'')))"

section \<open>Vocabulary of the properties\<close>

text \<open>
  \<open>emits P m\<close>: from every state, \<open>m\<close> only appends to the trace, and every
  action it appends satisfies \<open>P\<close>. \<open>starts e m\<close>: from every state, the first
  action of \<open>m\<close> is \<open>e\<close>. \<open>marks e m\<close>: whenever \<open>m\<close> returns normally,
  \<open>e\<close> is in the trace. \<open>returns Q m\<close>: whenever \<open>m\<close> returns normally, its
  value satisfies \<open>Q\<close>.
\<close>

definition emits :: "(event \<Rightarrow> bool) \<Rightarrow> 'a io \<Rightarrow> bool" where
  "emits P m = (\<forall>w. \<exists>evs. trace (snd (m w)) = trace w @ evs \<and> list_all P evs)"

definition starts :: "event \<Rightarrow> 'a io \<Rightarrow> bool" where
  "starts e m = (\<forall>w. \<exists>evs. trace (snd (m w)) = trace w @ e # evs)"

definition marks :: "event \<Rightarrow> 'a io \<Rightarrow> bool" where
  "marks e m = (\<forall>w x w'. m w = (Inr x, w') \<longrightarrow> e \<in> set (trace w'))"

definition returns :: "('a \<Rightarrow> bool) \<Rightarrow> 'a io \<Rightarrow> bool" where
  "returns Q m = (\<forall>w x w'. m w = (Inr x, w') \<longrightarrow> Q x)"

text \<open>
  \<open>calm env\<close>: no external action raises and no signal arrives.
  \<open>steady m\<close>: \<open>m\<close> returns normally from every state and leaves the event as it
  found it.
\<close>

definition calm :: "env \<Rightarrow> bool" where
  "calm env = (\<forall>n. fault env n = None \<and> \<not> signal env n)"

definition steady :: "'a io \<Rightarrow> bool" where
  "steady m = (\<forall>w. \<exists>x w'. m w = (Inr x, w') \<and> stop_event w' = stop_event w)"

text \<open>The actions of the service-restart fallback: the confirmation prompt and the commands.\<close>

definition is_restart :: "event \<Rightarrow> bool" where
  "is_restart e = (case e of Input prompt \<Rightarrow> True | CheckCall cmd \<Rightarrow> True | _ \<Rightarrow> False)"

section \<open>Concrete runs\<close>

text \<open>
  An initial state, a state with the event set, and an environment in which nothing raises,
  no signal arrives and every action takes its nominal time.
\<close>

definition w_init :: world where
  "w_init = \<lparr>trace = [], clock = 0, stop_event = False\<rparr>"


definition env_calm :: env where
  "env_calm = \<lparr>fault = (\<lambda>n. None), reply = (\<lambda>n. ''250 OK''), listing = (\<lambda>n. []),
               status = (\<lambda>n. None), took = (\<lambda>n. 0), signal = (\<lambda>n. False)\<rparr>"

text \<open>
  Proxy-list files: one with a comment, padding and a blank line, one with a repeated endpoint.
\<close>

definition env_list :: env where
  "env_list = env_calm\<lparr>reply :=
     (\<lambda>n. ''# pool'' @ [CHR 0x0D, CHR 0x0A] @ ''  http://p1:8080 '' @ [CHR 0x0A, CHR 0x0A]
          @ ''socks5://p2:1080'')\<rparr>"

definition env_dup :: env where
  "env_dup = env_calm\<lparr>reply :=
     (\<lambda>n. ''http://p1:8080'' @ [CHR 0x0A] @ ''http://p1:8080'' @ [CHR 0x0A])\<rparr>"

text \<open>
  Proxy mode with no list configured, and with a list that cannot be opened.
\<close>

definition args_idle :: args where
  "args_idle = \<lparr>mode = Proxy, interval = 1, wait_after_change = 5, proxy_list = None,
      ovpn_dir = None, tor_control_password = None, count = 2, run_once = False,
      dry_run = False, logfile = ''auto_changer.log''\<rparr>"

definition args_nofile :: args where
  "args_nofile = \<lparr>mode = Proxy, interval = 60, wait_after_change = 5,
      proxy_list = Some ''proxies.txt'', ovpn_dir = None, tor_control_password = None,
      count = 0, run_once = False, dry_run = False, logfile = ''auto_changer.log''\<rparr>"

definition env_nofile :: env where
  "env_nofile = env_calm\<lparr>
     fault := (\<lambda>n. if n = 1 then Some (Exc FileNotFoundError ''[Errno 2] No such file or directory'')
                  else None)\<rparr>"

definition w_started :: world where
  "w_started = \<lparr>trace = [LogWrite ''AutoChanger started. Mode: proxy''], clock = 0,
     stop_event = False\<rparr>"

definition w_nofile :: world where
  "w_nofile = \<lparr>trace = [LogWrite ''AutoChanger started. Mode: proxy'', OpenRead ''proxies.txt''],
     clock = 0, stop_event = False\<rparr>"

definition w_fatal :: world where
  "w_fatal = \<lparr>trace = [LogWrite ''AutoChanger started. Mode: proxy'', OpenRead ''proxies.txt'',
       LogWrite ''Fatal error: [Errno 2] No such file or directory''],
     clock = 0, stop_event = False\<rparr>"

text \<open>
  A VPN cycle: with a signal during the settle sleep (\<open>env_sigint\<close>), with the log
  write after the second probe failing, with the process outliving the wait of the
  teardown, and with the log write after the poll failing (\<open>env_startlog\<close>);
  \<open>env_sig0\<close> delivers a signal during the very first action.
\<close>

definition args_vpn :: args where
  "args_vpn = \<lparr>mode = Vpn, interval = 60, wait_after_change = 5, proxy_list = None,
      ovpn_dir = Some ''/etc/openvpn'', tor_control_password = None, count = 0, run_once = True,
      dry_run = False, logfile = ''auto_changer.log''\<rparr>"



definition env_logfail :: env where
  "env_logfail = env_calm\<lparr>
     fault := (\<lambda>n. if n = 10 then Some (Exc OSError ''[Errno 28] No space left on device'') else None),
     reply := (\<lambda>n. ''203.0.113.7'' @ [CHR 0x0A])\<rparr>"

definition env_timeout :: env where
  "env_timeout = env_calm\<lparr>
     fault := (\<lambda>n. if n = 12 then Some (Exc TimeoutExpired ''timed out after 10 seconds'') else None),
     reply := (\<lambda>n. ''203.0.113.7'' @ [CHR 0x0A])\<rparr>"

definition env_startlog :: env where
  "env_startlog = env_calm\<lparr>
     fault := (\<lambda>n. if n = 6 then Some (Exc OSError ''[Errno 28] No space left on device'') else None),
     reply := (\<lambda>n. ''203.0.113.7'' @ [CHR 0x0A])\<rparr>"

definition w_leak :: world where
  "w_leak = \<lparr>trace = [HttpGet None 10, LogWrite ''IP before (direct): 203.0.113.7'',
      LogWrite ''Starting OpenVPN config: /etc/openvpn/a.ovpn'',
      Popen [''sudo'', ''openvpn'', ''--config'', ''/etc/openvpn/a.ovpn''],
      Sleep 2000, Poll 3, LogWrite ''OpenVPN process started.'',
      LogWrite ''Failed to start openvpn: [Errno 28] No space left on device'',
      LogWrite ''OpenVPN failed to start for this config.''],
     clock = 2000, stop_event = False\<rparr>"

definition w_up :: world where
  "w_up = \<lparr>trace = [HttpGet None 10, LogWrite ''IP before (direct): 203.0.113.7'',
       LogWrite ''Starting OpenVPN config: /etc/openvpn/a.ovpn'',
       Popen [''sudo'', ''openvpn'', ''--config'', ''/etc/openvpn/a.ovpn''],
       Sleep 2000, Poll 3, LogWrite ''OpenVPN process started.''],
     clock = 2000, stop_event = False\<rparr>"

definition w_down :: world where
  "w_down = \<lparr>trace = [HttpGet None 10, LogWrite ''IP before (direct): 203.0.113.7'',
      LogWrite ''Starting OpenVPN config: /etc/openvpn/a.ovpn'',
      Popen [''sudo'', ''openvpn'', ''--config'', ''/etc/openvpn/a.ovpn''],
      Sleep 2000, Poll 3, LogWrite ''OpenVPN process started.'',
      LogWrite ''Sleeping 5 seconds for VPN to establish...'', Sleep 5000,
      HttpGet None 10, LogWrite ''IP after VPN: 203.0.113.7'', Terminate 3,
      WaitProc 3 10, Kill 3, LogWrite ''VPN process killed.'', Sleep 2000],
     clock = 9000, stop_event = False\<rparr>"

text \<open>
  A Tor change with the control port refusing the connection and the answer \<open>y\<close> at the
  prompt: as a control-port attempt, and as a whole run with \<open>--dry-run\<close>.
\<close>

definition env_tor_down :: env where
  "env_tor_down = env_calm\<lparr>
     fault := (\<lambda>n. if n = 0 then Some (Exc OSError ''[Errno 111] Connection refused'') else None),
     reply := (\<lambda>n. ''y'')\<rparr>"

definition w_refused :: world where
  "w_refused = \<lparr>trace = [SockConnect ''127.0.0.1'' 9051 5,
      LogWrite ''Tor control error: [Errno 111] Connection refused''],
     clock = 0, stop_event = False\<rparr>"

definition w_newnym :: world where
  "w_newnym = \<lparr>trace = [SockConnect ''127.0.0.1'' 9051 5,
      SockSend (''AUTHENTICATE'' @ [CHR 0x0D, CHR 0x0A]), SockRecv,
      SockSend (''SIGNAL NEWNYM'' @ [CHR 0x0D, CHR 0x0A]), SockRecv, SockClose],
     clock = 0, stop_event = False\<rparr>"

definition args_dry :: args where
  "args_dry = \<lparr>mode = Tor, interval = 60, wait_after_change = 5, proxy_list = None,
      ovpn_dir = None, tor_control_password = None, count = 0, run_once = True,
      dry_run = True, logfile = ''auto_changer.log''\<rparr>"

definition env_dry :: env where
  "env_dry = env_calm\<lparr>
     fault := (\<lambda>n. if n = 6 then Some (Exc OSError ''[Errno 111] Connection refused'') else None),
     reply := (\<lambda>n. if n = 10 then ''y'' else ''203.0.113.7'' @ [CHR 0x0A])\<rparr>"

definition w_dry :: world where
  "w_dry = \<lparr>trace =
      [LogWrite ''AutoChanger started. Mode: tor'',
       LogWrite ''Dry-run mode enabled. Privileged actions will NOT run.'',
       LogWrite ''--- Iteration 1 ---'', LogWrite ''Running TOR change...'',
       HttpGet None 10, LogWrite ''IP before (direct): 203.0.113.7'',
       SockConnect ''127.0.0.1'' 9051 5,
       LogWrite ''Tor control error: [Errno 111] Connection refused'',
       LogWrite ''Tor control port NEWNYM failed; falling back to service restart.'',
       LogWrite ''Attempting to restart 'tor' service (requires sudo).'',
       Input ''This will run 'sudo systemctl restart tor' (or 'service tor restart'). Continue? [y/N] >> '',
       CheckCall [''sudo'', ''systemctl'', ''restart'', ''tor''],
       LogWrite ''Ran: sudo systemctl restart tor'', Sleep 5000,
       HttpGet (Some [(''http'', ''socks5h://127.0.0.1:9050''),
                      (''https'', ''socks5h://127.0.0.1:9050'')]) 10,
       LogWrite ''IP after (via TOR): 203.0.113.7'',
       LogWrite ''run_once specified; exiting loop.'',
       LogWrite ''AutoChanger finished.''],
     clock = 5000, stop_event = False\<rparr>"

text \<open>
  Two iterations in Tor mode with the control port accepting both commands.
\<close>

definition args_tor2 :: args where
  "args_tor2 = \<lparr>mode = Tor, interval = 60, wait_after_change = 5, proxy_list = None,
      ovpn_dir = None, tor_control_password = None, count = 2, run_once = False,
      dry_run = False, logfile = ''auto_changer.log''\<rparr>"

definition env_tor_ok :: env where
  "env_tor_ok = env_calm\<lparr>
     reply := (\<lambda>n. if n = 7 \<or> n = 9 \<or> n = 21 \<or> n = 23 then ''250 OK'' @ [CHR 0x0D, CHR 0x0A]
                  else ''203.0.113.7'' @ [CHR 0x0A])\<rparr>"

definition w_tor2 :: world where
  "w_tor2 = \<lparr>trace =
      [LogWrite ''AutoChanger started. Mode: tor'',
       LogWrite ''--- Iteration 1 ---'', LogWrite ''Running TOR change...'',
       HttpGet None 10, LogWrite ''IP before (direct): 203.0.113.7'',
       SockConnect ''127.0.0.1'' 9051 5,
       SockSend (''AUTHENTICATE'' @ [CHR 0x0D, CHR 0x0A]), SockRecv,
       SockSend (''SIGNAL NEWNYM'' @ [CHR 0x0D, CHR 0x0A]), SockRecv, SockClose,
       LogWrite ''Requested NEWNYM via Tor control port.'', Sleep 5000,
       HttpGet (Some [(''http'', ''socks5h://127.0.0.1:9050''),
                      (''https'', ''socks5h://127.0.0.1:9050'')]) 10,
       LogWrite ''IP after (via TOR): 203.0.113.7'',
       LogWrite ''--- Iteration 2 ---'', LogWrite ''Running TOR change...'',
       HttpGet None 10, LogWrite ''IP before (direct): 203.0.113.7'',
       SockConnect ''127.0.0.1'' 9051 5,
       SockSend (''AUTHENTICATE'' @ [CHR 0x0D, CHR 0x0A]), SockRecv,
       SockSend (''SIGNAL NEWNYM'' @ [CHR 0x0D, CHR 0x0A]), SockRecv, SockClose,
       LogWrite ''Requested NEWNYM via Tor control port.'', Sleep 5000,
       HttpGet (Some [(''http'', ''socks5h://127.0.0.1:9050''),
                      (''https'', ''socks5h://127.0.0.1:9050'')]) 10,
       LogWrite ''IP after (via TOR): 203.0.113.7'',
       LogWrite ''Reached count 2, exiting.'',
       LogWrite ''AutoChanger finished.''],
     clock = 10000, stop_event = False\<rparr>"

section \<open>Strings and the proxy list\<close>

lemma load_loop_filter:
  "load_loop acc ls = acc @ filter (\<lambda>s. s \<noteq> [] \<and> \<not> startswith s ''#'') (map strip ls)"
  by (induction ls arbitrary: acc) (simp_all add: Let_def)

lemma dropWhile_rev_prefix: "\<exists>zs. u = rev (dropWhile P (rev u)) @ zs"
proof -
  have "rev u = takeWhile P (rev u) @ dropWhile P (rev u)" by simp
  then have "u = rev (dropWhile P (rev u)) @ rev (takeWhile P (rev u))"
    by (metis rev_append rev_rev_ident)
  then show ?thesis by blast
qed

lemma strip_idem: "strip (strip s) = strip s"
proof -
  define u where "u = dropWhile isspace s"
  define t where "t = rev (dropWhile isspace (rev u))"
  have t: "strip s = t" by (simp add: strip_def t_def u_def)
  have hd_u: "u \<noteq> [] \<Longrightarrow> \<not> isspace (hd u)" unfolding u_def by (rule hd_dropWhile)
  obtain zs where zs: "u = t @ zs" unfolding t_def using dropWhile_rev_prefix by blast
  have d1: "dropWhile isspace t = t"
  proof (cases "t = []")
    case True then show ?thesis by simp
  next
    case False
    then have "hd t = hd u" "u \<noteq> []" using zs by auto
    then show ?thesis using hd_u False by (simp add: dropWhile_eq_self_iff)
  qed
  have d2: "dropWhile isspace (rev t) = rev t"
  proof -
    have "rev t = dropWhile isspace (rev u)" by (simp add: t_def)
    then show ?thesis by (metis dropWhile_idem)
  qed
  show ?thesis unfolding t by (simp add: strip_def d1 d2)
qed

lemma count_list_filter: "count_list (filter P xs) s = (if P s then count_list xs s else 0)"
  by (induction xs) auto

lemma load_proxy_list_Inr:
  assumes "load_proxy_list env path w = (Inr proxies, w')"
  shows "proxies = filter (\<lambda>s. s \<noteq> [] \<and> \<not> startswith s ''#'')
           (map strip (readlines [] (universal_newlines (reply env (length (trace w))))))"
proof -
  have "proxies = load_loop [] (readlines [] (universal_newlines (reply env (length (trace w)))))"
    using assms
    by (auto simp: load_proxy_list_def open_lines_def step_def raw_step_def signal_handler_def
          raw_log_def io_bind_def io_return_def Let_def
        split: if_splits option.splits sum.splits prod.splits)
  then show ?thesis by (simp add: load_loop_filter)
qed

text \<open>
  C8. Whenever \<open>load_proxy_list\<close> returns, its list is the stripped lines of the
  file, in the file's order, without those that are empty or start with \<open>#\<close>; so
  no returned entry is blank and none starts with \<open>#\<close> after stripping.
\<close>

theorem load_proxy_list_order:
  assumes "load_proxy_list env path w = (Inr proxies, w')"
  shows "proxies = filter (\<lambda>s. s \<noteq> [] \<and> \<not> startswith s ''#'')
                     (map strip (readlines [] (universal_newlines (reply env (length (trace w))))))
         \<and> (\<forall>s \<in> set proxies. strip s \<noteq> [] \<and> \<not> startswith (strip s) ''#'')"
proof -
  note p = load_proxy_list_Inr [OF assms]
  show ?thesis
  proof
    show "proxies = filter (\<lambda>s. s \<noteq> [] \<and> \<not> startswith s ''#'')
            (map strip (readlines [] (universal_newlines (reply env (length (trace w))))))"
      by (rule p)
    show "\<forall>s \<in> set proxies. strip s \<noteq> [] \<and> \<not> startswith (strip s) ''#''"
      unfolding p by (auto simp: strip_idem)
  qed
qed

theorem load_proxy_list_order_witness:
  "load_proxy_list env_list ''proxies.txt'' w_init
     = (Inr [''http://p1:8080'', ''socks5://p2:1080''], w_init\<lparr>trace := [OpenRead ''proxies.txt'']\<rparr>)
   \<and> ([''http://p1:8080'', ''socks5://p2:1080'']
        = filter (\<lambda>s. s \<noteq> [] \<and> \<not> startswith s ''#'')
            (map strip (readlines [] (universal_newlines (reply env_list (length (trace w_init))))))
      \<and> list_all (\<lambda>s. strip s \<noteq> [] \<and> \<not> startswith (strip s) ''#'')
            [''http://p1:8080'', ''socks5://p2:1080''])"
proof -
  have h: "load_proxy_list env_list ''proxies.txt'' w_init
     = (Inr [''http://p1:8080'', ''socks5://p2:1080''], w_init\<lparr>trace := [OpenRead ''proxies.txt'']\<rparr>)"
    by code_simp
  show ?thesis
    using h load_proxy_list_order [OF h] unfolding list_all_iff by (rule_tac conjI)
qed

text \<open>
  C9, as the code has it: duplicates are kept. The returned list has one entry for
  every line that is neither blank nor a comment, so a string that is a possible
  endpoint occurs in it as often as lines of the file strip to it.
\<close>

theorem load_proxy_list_keeps_duplicates:
  assumes "load_proxy_list env path w = (Inr proxies, w')"
  shows "\<forall>s. s \<noteq> [] \<and> \<not> startswith s ''#'' \<longrightarrow>
           count_list proxies s
             = count_list (map strip (readlines [] (universal_newlines (reply env (length (trace w)))))) s"
  unfolding load_proxy_list_Inr [OF assms] by (simp add: count_list_filter)

theorem load_proxy_list_keeps_duplicates_witness:
  "load_proxy_list env_dup ''proxies.txt'' w_init
     = (Inr [''http://p1:8080'', ''http://p1:8080''], w_init\<lparr>trace := [OpenRead ''proxies.txt'']\<rparr>)
   \<and> ''http://p1:8080'' \<noteq> [] \<and> \<not> startswith ''http://p1:8080'' ''#''
   \<and> count_list [''http://p1:8080'', ''http://p1:8080''] ''http://p1:8080'' = 2
   \<and> count_list (map strip (readlines [] (universal_newlines (reply env_dup (length (trace w_init))))))
        ''http://p1:8080'' = 2"
proof -
  have h: "load_proxy_list env_dup ''proxies.txt'' w_init
     = (Inr [''http://p1:8080'', ''http://p1:8080''], w_init\<lparr>trace := [OpenRead ''proxies.txt'']\<rparr>)"
    by code_simp
  have k: "''http://p1:8080'' \<noteq> [] \<and> \<not> startswith ''http://p1:8080'' ''#''"
    by (simp add: startswith_def)
  have c: "count_list [''http://p1:8080'', ''http://p1:8080''] ''http://p1:8080'' = 2"
    by simp
  from load_proxy_list_keeps_duplicates [OF h] k c
  have "count_list (map strip (readlines [] (universal_newlines (reply env_dup (length (trace w_init))))))
        ''http://p1:8080'' = 2"
    by metis
  with h k c show ?thesis by blast
qed

text \<open>
  C9, as stated, fails: a file with the same endpoint on two lines is parsed to a
  list with that endpoint twice.
\<close>

theorem load_proxy_list_duplicates_counterexample:
  "\<not> (case fst (load_proxy_list env_dup ''proxies.txt'' w_init) of
        Inr proxies \<Rightarrow> distinct proxies | Inl e \<Rightarrow> True)"
  by code_simp

section \<open>The IP probe\<close>

text \<open>
  C7. For every \<open>proxies\<close> argument and timeout, in every state and environment,
  \<open>check_ip\<close> returns a string and raises nothing: the stripped body of the
  response when the request returns, and \<open>ERROR: \<close> followed by the text of the
  exception when the request raises.
\<close>

theorem check_ip_never_raises:
  "(\<exists>ip. fst (check_ip env proxies timeout w) = Inr ip) \<and>
   (case step env (HttpGet proxies timeout) 0 w of
      (Inl e, w') \<Rightarrow> check_ip env proxies timeout w = (Inr (''ERROR: '' @ exc_str e), w')
    | (Inr n, w') \<Rightarrow> check_ip env proxies timeout w = (Inr (strip (reply env n)), w'))"
  by (cases "step env (HttpGet proxies timeout) 0 w")
     (auto simp: check_ip_def requests_get_def io_try_def io_bind_def io_return_def
           split: sum.splits)

section \<open>Rules for the actions\<close>

lemma emits_return: "emits P (io_return x)"
  by (simp add: emits_def io_return_def)

lemma emits_raise: "emits P (io_raise e)"
  by (simp add: emits_def io_raise_def)

lemma emits_bind:
  assumes "emits P m" "\<And>x. emits P (f x)"
  shows "emits P (io_bind m f)"
  unfolding emits_def
proof
  fix w
  obtain r w1 where m: "m w = (r, w1)" by (cases "m w")
  from assms(1) m obtain evs1 where e1: "trace w1 = trace w @ evs1" "list_all P evs1"
    unfolding emits_def by (metis snd_conv)
  show "\<exists>evs. trace (snd (io_bind m f w)) = trace w @ evs \<and> list_all P evs"
  proof (cases r)
    case (Inl e)
    then show ?thesis using m e1 by (simp add: io_bind_def)
  next
    case (Inr x)
    from assms(2)[of x] obtain evs2 where "trace (snd (f x w1)) = trace w1 @ evs2" "list_all P evs2"
      unfolding emits_def by blast
    then show ?thesis using m e1 Inr by (simp add: io_bind_def)
  qed
qed

lemma emits_try:
  assumes "emits P m" "\<And>e. emits P (h e)"
  shows "emits P (io_try m h)"
  unfolding emits_def
proof
  fix w
  obtain r w1 where m: "m w = (r, w1)" by (cases "m w")
  from assms(1) m obtain evs1 where e1: "trace w1 = trace w @ evs1" "list_all P evs1"
    unfolding emits_def by (metis snd_conv)
  show "\<exists>evs. trace (snd (io_try m h w)) = trace w @ evs \<and> list_all P evs"
  proof (cases r)
    case (Inr x)
    then show ?thesis using m e1 by (simp add: io_try_def)
  next
    case (Inl e)
    from assms(2)[of e] obtain evs2 where "trace (snd (h e w1)) = trace w1 @ evs2" "list_all P evs2"
      unfolding emits_def by blast
    then show ?thesis using m e1 Inl by (simp add: io_try_def)
  qed
qed

lemma emits_if: "(c \<Longrightarrow> emits P m1) \<Longrightarrow> (\<not> c \<Longrightarrow> emits P m2) \<Longrightarrow> emits P (if c then m1 else m2)"
  by simp

lemma emits_case_option:
  "emits P m1 \<Longrightarrow> (\<And>x. emits P (m2 x)) \<Longrightarrow> emits P (case r of None \<Rightarrow> m1 | Some x \<Rightarrow> m2 x)"
  by (cases r) simp_all

lemma emits_step:
  assumes "P e" "P (LogWrite ''Interrupt received, stopping...'')"
  shows "emits P (step env e d)"
  using assms
  by (auto simp: emits_def step_def raw_step_def signal_handler_def raw_log_def io_bind_def
        io_return_def Let_def split: option.splits)

lemmas emits_intros = emits_return emits_raise emits_bind emits_try emits_if emits_case_option

lemma emits_log:
  assumes "P (LogWrite msg)" "P (LogWrite ''Interrupt received, stopping...'')"
  shows "emits P (log env msg)"
  unfolding log_def by (intro emits_intros emits_step assms)

lemma steady_return: "steady (io_return x)"
  by (simp add: steady_def io_return_def)

lemma steady_bind:
  assumes "steady m" "\<And>x. steady (f x)"
  shows "steady (io_bind m f)"
  unfolding steady_def
proof
  fix w
  from assms(1) obtain x w1 where m: "m w = (Inr x, w1)" "stop_event w1 = stop_event w"
    unfolding steady_def by blast
  from assms(2)[of x] obtain y w2 where "f x w1 = (Inr y, w2)" "stop_event w2 = stop_event w1"
    unfolding steady_def by blast
  with m show "\<exists>y w'. io_bind m f w = (Inr y, w') \<and> stop_event w' = stop_event w"
    by (simp add: io_bind_def)
qed

lemma steady_try: "steady m \<Longrightarrow> steady (io_try m h)"
  unfolding steady_def io_try_def
  by (metis (mono_tags, lifting) old.prod.case sum.simps(6))

lemma steady_if: "(c \<Longrightarrow> steady m1) \<Longrightarrow> (\<not> c \<Longrightarrow> steady m2) \<Longrightarrow> steady (if c then m1 else m2)"
  by simp

lemma steady_case_option:
  "steady m1 \<Longrightarrow> (\<And>x. steady (m2 x)) \<Longrightarrow> steady (case r of None \<Rightarrow> m1 | Some x \<Rightarrow> m2 x)"
  by (cases r) simp_all

lemma step_calm:
  "calm env \<Longrightarrow> step env e d w
     = (Inr (length (trace w)),
        w\<lparr>trace := trace w @ [e], clock := clock w + d + int (took env (length (trace w)))\<rparr>)"
  by (simp add: calm_def step_def raw_step_def Let_def)

lemma steady_step: "calm env \<Longrightarrow> steady (step env e d)"
  by (simp add: steady_def step_calm)

lemmas steady_intros = steady_return steady_bind steady_try steady_if steady_case_option steady_step

lemma steady_log: "calm env \<Longrightarrow> steady (log env msg)"
  unfolding log_def by (intro steady_intros)

lemma steady_sleep:
  "calm env \<Longrightarrow> 0 \<le> ms \<and> ms \<le> 9223372036000 \<Longrightarrow> steady (sleep env ms)"
  unfolding sleep_def by (simp add: steady_intros)

lemma steady_check_ip: "calm env \<Longrightarrow> steady (check_ip env proxies timeout)"
  unfolding check_ip_def requests_get_def Let_def by (intro steady_intros)

lemma steady_newnym: "calm env \<Longrightarrow> steady (tor_newnym_via_control env h p pw t)"
  unfolding tor_newnym_via_control_def sock_connect_def sock_send_def sock_readline_def
    sock_close_def
  by (intro steady_intros steady_log)

lemma steady_restart_loop: "calm env \<Longrightarrow> steady (restart_loop env cmds)"
proof (induction cmds)
  case Nil
  then show ?case by (simp add: steady_intros steady_log)
next
  case (Cons cmd rest)
  then show ?case
    unfolding restart_loop.simps check_call_def
    by (intro steady_intros steady_log) (simp_all add: steady_intros)
qed

lemma steady_reload: "calm env \<Longrightarrow> steady (tor_reload_service env)"
  unfolding tor_reload_service_def input_line_def Let_def
  by (intro steady_intros steady_log steady_restart_loop)

lemma steady_change_identity: "calm env \<Longrightarrow> steady (tor_change_identity env pw)"
  unfolding tor_change_identity_def
  by (intro steady_intros steady_log steady_reload steady_newnym)

lemma steady_run_once_tor:
  "calm env \<Longrightarrow> 0 \<le> wait_after_change a \<and> wait_after_change a \<le> 9223372036
    \<Longrightarrow> steady (run_once_tor env a)"
  unfolding run_once_tor_def
  by (intro steady_intros steady_log steady_check_ip steady_change_identity steady_sleep) simp_all

lemma steady_run_once_proxy:
  "calm env \<Longrightarrow> 0 \<le> wait_after_change a \<and> wait_after_change a \<le> 9223372036
    \<Longrightarrow> steady (run_once_proxy env a purl)"
  unfolding run_once_proxy_def Let_def
  by (intro steady_intros steady_log steady_check_ip steady_sleep) simp_all

lemma steady_start_openvpn: "calm env \<Longrightarrow> steady (start_openvpn env path)"
  unfolding start_openvpn_def popen_def poll_def
  by (intro steady_intros steady_log steady_sleep) simp_all

lemma steady_stop_process: "calm env \<Longrightarrow> steady (stop_process env p)"
  unfolding stop_process_def terminate_def wait_proc_def kill_def
  by (intro steady_intros steady_log)

lemma steady_run_once_vpn:
  "calm env \<Longrightarrow> wait_after_change a \<le> 9223372036 \<Longrightarrow> steady (run_once_vpn env a path)"
  unfolding run_once_vpn_def Let_def
  by (intro steady_intros steady_log steady_check_ip steady_sleep steady_start_openvpn
        steady_stop_process) simp_all

declare wait_loop.simps [simp del]

lemma wait_loop_calm:
  "calm env \<Longrightarrow> \<exists>w'. wait_loop env total_ms start w = (Inr (), w') \<and> stop_event w' = stop_event w"
proof (induction env total_ms start w rule: wait_loop.induct)
  case (1 env total_ms start w)
  show ?case
  proof (cases "clock w - start < total_ms \<and> \<not> stop_event w")
    case False
    then show ?thesis by (auto simp: wait_loop.simps [of env total_ms start w])
  next
    case True
    define w1 where "w1 = w\<lparr>trace := trace w @ [Sleep 500],
        clock := clock w + 500 + int (took env (length (trace w)))\<rparr>"
    have s: "sleep env 500 w = (Inr (), w1)"
      using 1(2) by (simp add: sleep_def io_bind_def io_return_def step_calm w1_def)
    from 1(1)[OF _ _ s[symmetric] refl 1(2)] True
    obtain w' where "wait_loop env total_ms start w1 = (Inr (), w')" "stop_event w' = stop_event w1"
      by auto
    then show ?thesis using True s by (simp add: wait_loop.simps [of env total_ms start w] w1_def)
  qed
qed

lemma steady_wait_or_stop: "calm env \<Longrightarrow> steady (wait_or_stop env a)"
  unfolding steady_def wait_or_stop_def Let_def using wait_loop_calm by blast

lemma steady_proxy_loop:
  "calm env \<Longrightarrow> 0 \<le> wait_after_change a \<and> wait_after_change a \<le> 9223372036
    \<Longrightarrow> steady (proxy_loop env a ps)"
proof (induction ps)
  case Nil
  then show ?case by (simp add: steady_def)
next
  case (Cons purl rest)
  have body: "steady (io_bind (log env (''Using proxy: '' @ purl)) (\<lambda>_.
        io_bind (run_once_proxy env a purl) (\<lambda>_.
        io_bind (wait_or_stop env a) (\<lambda>_.
        proxy_loop env a rest))))"
    using Cons by (intro steady_intros steady_log steady_run_once_proxy steady_wait_or_stop)
  show ?case unfolding steady_def
  proof
    fix w
    show "\<exists>x w'. proxy_loop env a (purl # rest) w = (Inr x, w') \<and> stop_event w' = stop_event w"
      using body unfolding steady_def by (cases "stop_event w") auto
  qed
qed

lemma steady_vpn_loop:
  "calm env \<Longrightarrow> wait_after_change a \<le> 9223372036 \<Longrightarrow> steady (vpn_loop env a cs)"
proof (induction cs)
  case Nil
  then show ?case by (simp add: steady_def)
next
  case (Cons cfg rest)
  have body: "steady (io_bind (log env (''Using VPN config: '' @ cfg)) (\<lambda>_.
        io_bind (run_once_vpn env a cfg) (\<lambda>_.
        io_bind (wait_or_stop env a) (\<lambda>_.
        vpn_loop env a rest))))"
    using Cons by (intro steady_intros steady_log steady_run_once_vpn steady_wait_or_stop)
  show ?case unfolding steady_def
  proof
    fix w
    show "\<exists>x w'. vpn_loop env a (cfg # rest) w = (Inr x, w') \<and> stop_event w' = stop_event w"
      using body unfolding steady_def by (cases "stop_event w") auto
  qed
qed

lemma steady_iteration_body:
  "calm env \<Longrightarrow> 0 \<le> wait_after_change a \<and> wait_after_change a \<le> 9223372036
    \<Longrightarrow> steady (iteration_body env a ps cs i)"
  unfolding iteration_body_def
  by (intro steady_intros steady_log steady_run_once_tor steady_proxy_loop steady_vpn_loop
        steady_wait_or_stop) simp_all

lemma returns_bind: "(\<And>x. returns Q (f x)) \<Longrightarrow> returns Q (io_bind m f)"
  unfolding returns_def io_bind_def by (auto split: prod.splits sum.splits)

lemma returns_return: "Q x \<Longrightarrow> returns Q (io_return x)"
  by (simp add: returns_def io_return_def)

lemma returns_if: "(c \<Longrightarrow> returns Q m1) \<Longrightarrow> (\<not> c \<Longrightarrow> returns Q m2) \<Longrightarrow> returns Q (if c then m1 else m2)"
  by simp

lemma iteration_body_break:
  "returns (\<lambda>brk. brk = (run_once a \<or> (count a \<noteq> 0 \<and> count a \<le> i))) (iteration_body env a ps cs i)"
  unfolding iteration_body_def
  by (intro returns_bind returns_if returns_return) auto

section \<open>The loop of the orchestrator\<close>

lemma while_loop_bounds:
  "while_loop fuel env a ps cs i w = Some (Inr j, w') \<Longrightarrow> i \<le> j \<and> j \<le> i + int fuel"
proof (induction fuel arbitrary: i w)
  case 0
  then show ?case by simp
next
  case (Suc fuel)
  show ?case
  proof (cases "stop_event w")
    case True
    with Suc.prems show ?thesis by simp
  next
    case False
    obtain r w1 where b: "iteration_body env a ps cs (i + 1) w = (r, w1)"
      by (cases "iteration_body env a ps cs (i + 1) w")
    show ?thesis
    proof (cases r)
      case (Inl e)
      with Suc.prems False b show ?thesis by simp
    next
      case (Inr brk)
      show ?thesis
      proof (cases brk)
        case True
        with Suc.prems False b Inr show ?thesis by simp
      next
        case brk: False
        with Suc.prems False b Inr
        have "while_loop fuel env a ps cs (i + 1) w1 = Some (Inr j, w')" by simp
        from Suc.IH [OF this] show ?thesis by simp
      qed
    qed
  qed
qed

lemma body_calm:
  assumes "calm env" "0 \<le> wait_after_change a \<and> wait_after_change a \<le> 9223372036"
  shows "\<exists>w'. iteration_body env a ps cs i w
            = (Inr (run_once a \<or> (count a \<noteq> 0 \<and> count a \<le> i)), w')
          \<and> stop_event w' = stop_event w"
proof -
  from steady_iteration_body [OF assms, of ps cs i]
  obtain x w' where b: "iteration_body env a ps cs i w = (Inr x, w')" "stop_event w' = stop_event w"
    unfolding steady_def by blast
  from iteration_body_break [of a i env ps cs] b(1)
  have "x = (run_once a \<or> (count a \<noteq> 0 \<and> count a \<le> i))"
    unfolding returns_def by blast
  with b show ?thesis by blast
qed

lemma while_loop_run_once:
  assumes "\<not> stop_event w" "run_once a" "iteration_body env a ps cs (i + 1) w = (Inr brk, w')"
  shows "while_loop (Suc fuel) env a ps cs i w = Some (Inr (i + 1), w')"
proof -
  from iteration_body_break [of a "i + 1" env ps cs] assms(3) assms(2) have brk
    unfolding returns_def by blast
  with assms show ?thesis by simp
qed

lemma while_loop_count:
  assumes "calm env" "0 \<le> wait_after_change a \<and> wait_after_change a \<le> 9223372036"
    "\<not> run_once a"
  shows "\<not> stop_event w \<Longrightarrow> 0 \<le> i \<Longrightarrow> i < count a \<Longrightarrow> n = nat (count a - i) \<Longrightarrow>
         (\<exists>w'. while_loop n env a ps cs i w = Some (Inr (count a), w'))
         \<and> (\<forall>k<n. while_loop k env a ps cs i w = None)"
proof (induction n arbitrary: i w)
  case 0
  then show ?case by simp
next
  case (Suc n)
  from body_calm [OF assms(1,2), of ps cs "i + 1" w] assms(3)
  obtain w1 where b: "iteration_body env a ps cs (i + 1) w = (Inr (count a \<noteq> 0 \<and> count a \<le> i + 1), w1)"
    and s1: "stop_event w1 = stop_event w" by auto
  show ?case
  proof (cases "count a \<le> i + 1")
    case True
    with Suc.prems have c: "count a = i + 1" "n = 0" by auto
    have "while_loop (Suc n) env a ps cs i w = Some (Inr (count a), w1)"
      using Suc.prems b True c by simp
    moreover have "\<forall>k<Suc n. while_loop k env a ps cs i w = None"
      using c by simp
    ultimately show ?thesis by blast
  next
    case False
    with Suc.prems have n: "n = nat (count a - (i + 1))" "i + 1 < count a" by auto
    from Suc.IH [OF _ _ n(2) n(1), of w1] s1 Suc.prems(1,2)
    obtain w' where r: "while_loop n env a ps cs (i + 1) w1 = Some (Inr (count a), w')"
      and lo: "\<forall>k<n. while_loop k env a ps cs (i + 1) w1 = None" by auto
    have u: "\<And>k. while_loop (Suc k) env a ps cs i w = while_loop k env a ps cs (i + 1) w1"
      using Suc.prems(1) b False by simp
    have "\<forall>k<Suc n. while_loop k env a ps cs i w = None"
    proof (intro allI impI)
      fix k assume "k < Suc n"
      then show "while_loop k env a ps cs i w = None"
        using u lo by (cases k) auto
    qed
    with r u show ?thesis by auto
  qed
qed

lemma while_loop_unbounded:
  assumes "calm env" "0 \<le> wait_after_change a \<and> wait_after_change a \<le> 9223372036"
    "\<not> run_once a" "count a = 0"
  shows "\<not> stop_event w \<Longrightarrow> while_loop k env a ps cs i w = None"
proof (induction k arbitrary: i w)
  case 0
  then show ?case by simp
next
  case (Suc k)
  from body_calm [OF assms(1,2), of ps cs "i + 1" w] assms(3,4)
  obtain w1 where b: "iteration_body env a ps cs (i + 1) w = (Inr False, w1)"
    and s1: "stop_event w1 = stop_event w" by auto
  from Suc.IH [of w1 "i + 1"] s1 Suc.prems have "while_loop k env a ps cs (i + 1) w1 = None" by simp
  with b Suc.prems show ?case by simp
qed

lemma while_loop_exit_count:
  assumes "\<not> run_once a"
  shows "while_loop fuel env a ps cs i w = Some (Inr j, w') \<Longrightarrow> 0 \<le> i \<Longrightarrow> i < count a \<Longrightarrow>
         j = count a \<or> (j < count a \<and> stop_event w')"
proof (induction fuel arbitrary: i w)
  case 0
  then show ?case by simp
next
  case (Suc fuel)
  show ?case
  proof (cases "stop_event w")
    case True
    with Suc.prems show ?thesis by simp
  next
    case False
    obtain r w1 where b: "iteration_body env a ps cs (i + 1) w = (r, w1)"
      by (cases "iteration_body env a ps cs (i + 1) w")
    show ?thesis
    proof (cases r)
      case (Inl e)
      with Suc.prems False b show ?thesis by simp
    next
      case (Inr brk)
      from iteration_body_break [of a "i + 1" env ps cs] b Inr assms
      have brk: "brk = (count a \<noteq> 0 \<and> count a \<le> i + 1)"
        unfolding returns_def by blast
      show ?thesis
      proof (cases brk)
        case True
        with Suc.prems False b Inr have "j = i + 1" by simp
        with True brk Suc.prems show ?thesis by simp
      next
        case nb: False
        with Suc.prems False b Inr
        have r: "while_loop fuel env a ps cs (i + 1) w1 = Some (Inr j, w')" by simp
        from nb brk Suc.prems have "i + 1 < count a" by auto
        from Suc.IH [OF r _ this] Suc.prems show ?thesis by simp
      qed
    qed
  qed
qed

lemma while_loop_exit_unbounded:
  assumes "\<not> run_once a" "count a = 0"
  shows "while_loop fuel env a ps cs i w = Some (Inr j, w') \<Longrightarrow> stop_event w'"
proof (induction fuel arbitrary: i w)
  case 0
  then show ?case by simp
next
  case (Suc fuel)
  show ?case
  proof (cases "stop_event w")
    case True
    with Suc.prems show ?thesis by simp
  next
    case False
    obtain r w1 where b: "iteration_body env a ps cs (i + 1) w = (r, w1)"
      by (cases "iteration_body env a ps cs (i + 1) w")
    show ?thesis
    proof (cases r)
      case (Inl e)
      with Suc.prems False b show ?thesis by simp
    next
      case (Inr brk)
      from iteration_body_break [of a "i + 1" env ps cs] b Inr assms
      have "\<not> brk" unfolding returns_def by blast
      with Suc.prems False b Inr
      have "while_loop fuel env a ps cs (i + 1) w1 = Some (Inr j, w')" by simp
      from Suc.IH [OF this] show ?thesis .
    qed
  qed
qed

lemma while_loop_exit_run_once:
  assumes "run_once a" "while_loop fuel env a ps cs i w = Some (Inr j, w')"
  shows "j = i + 1 \<or> (j = i \<and> stop_event w')"
proof (cases fuel)
  case 0
  with assms show ?thesis by simp
next
  case (Suc k)
  show ?thesis
  proof (cases "stop_event w")
    case True
    with assms Suc show ?thesis by simp
  next
    case False
    obtain r w1 where b: "iteration_body env a ps cs (i + 1) w = (r, w1)"
      by (cases "iteration_body env a ps cs (i + 1) w")
    show ?thesis
    proof (cases r)
      case (Inl e)
      with assms Suc False b show ?thesis by simp
    next
      case (Inr brk)
      from while_loop_run_once [OF False assms(1), of env ps cs i brk w1 k] b Inr assms(2) Suc
      show ?thesis by simp
    qed
  qed
qed

text \<open>
  C3. \<open>while_loop\<close> is the \<open>while\<close> loop of \<open>run_loop\<close>, started with the
  iteration count \<open>i\<close> (0 in \<open>run_loop\<close>) and returning the count at the exit.
  In order: with the event set at the head the loop exits at once and the count
  stays; the count never decreases and grows by at most one per pass; a pass that
  does not break hands the count plus one to the next pass; with \<open>run_once\<close> a
  normal exit has the count 1 whatever \<open>count\<close> is, unless the event was set before
  the first pass; without \<open>run_once\<close> and with \<open>count = N > 0\<close> a normal exit has
  the count \<open>N\<close>, unless the event ended the loop earlier; with \<open>count = 0\<close> a
  normal exit happens only with the event set. When no external action raises, no
  signal arrives and the settle time is one that \<open>time.sleep\<close> accepts (from 0 to
  9223372036 seconds), the loop does return with count 1 under \<open>run_once\<close>,
  returns after exactly \<open>N\<close> passes (no smaller number of passes suffices) for
  \<open>count = N > 0\<close>, and never returns for \<open>count = 0\<close>.
\<close>

theorem while_loop_exits:
  "(stop_event w \<longrightarrow> while_loop (Suc fuel) env a ps cs i w = Some (Inr i, w))
   \<and> (while_loop fuel env a ps cs i w = Some (Inr j, w') \<longrightarrow> i \<le> j \<and> j \<le> i + int fuel)
   \<and> (\<not> stop_event w \<and> iteration_body env a ps cs (i + 1) w = (Inr False, w')
        \<longrightarrow> while_loop (Suc fuel) env a ps cs i w = while_loop fuel env a ps cs (i + 1) w')
   \<and> (run_once a \<and> while_loop fuel env a ps cs 0 w = Some (Inr j, w')
        \<longrightarrow> j = 1 \<or> (j = 0 \<and> stop_event w'))
   \<and> (\<not> run_once a \<and> 0 < count a \<and> while_loop fuel env a ps cs 0 w = Some (Inr j, w')
        \<longrightarrow> j = count a \<or> (j < count a \<and> stop_event w'))
   \<and> (\<not> run_once a \<and> count a = 0 \<and> while_loop fuel env a ps cs 0 w = Some (Inr j, w')
        \<longrightarrow> stop_event w')
   \<and> (calm env \<and> 0 \<le> wait_after_change a \<and> wait_after_change a \<le> 9223372036
        \<and> \<not> stop_event w \<and> run_once a
        \<longrightarrow> (\<exists>w1. while_loop (Suc fuel) env a ps cs 0 w = Some (Inr 1, w1)))
   \<and> (calm env \<and> 0 \<le> wait_after_change a \<and> wait_after_change a \<le> 9223372036
        \<and> \<not> stop_event w \<and> \<not> run_once a \<and> 0 < count a
        \<longrightarrow> (\<exists>w1. while_loop (nat (count a)) env a ps cs 0 w = Some (Inr (count a), w1))
            \<and> (\<forall>k<nat (count a). while_loop k env a ps cs 0 w = None))
   \<and> (calm env \<and> 0 \<le> wait_after_change a \<and> wait_after_change a \<le> 9223372036
        \<and> \<not> stop_event w \<and> \<not> run_once a \<and> count a = 0
        \<longrightarrow> (\<forall>k. while_loop k env a ps cs 0 w = None))"
proof (intro conjI impI)
  show "while_loop (Suc fuel) env a ps cs i w = Some (Inr i, w)" if "stop_event w"
    using that by simp
  show "i \<le> j" "j \<le> i + int fuel" if "while_loop fuel env a ps cs i w = Some (Inr j, w')"
    using while_loop_bounds [OF that] by simp_all
  show "while_loop (Suc fuel) env a ps cs i w = while_loop fuel env a ps cs (i + 1) w'"
    if "\<not> stop_event w \<and> iteration_body env a ps cs (i + 1) w = (Inr False, w')"
    using that by simp
  show "j = 1 \<or> (j = 0 \<and> stop_event w')"
    if "run_once a \<and> while_loop fuel env a ps cs 0 w = Some (Inr j, w')"
    using while_loop_exit_run_once [of a fuel env ps cs 0 w j w'] that by simp
  show "j = count a \<or> (j < count a \<and> stop_event w')"
    if "\<not> run_once a \<and> 0 < count a \<and> while_loop fuel env a ps cs 0 w = Some (Inr j, w')"
    using while_loop_exit_count [of a fuel env ps cs 0 w j w'] that by simp
  show "stop_event w'"
    if "\<not> run_once a \<and> count a = 0 \<and> while_loop fuel env a ps cs 0 w = Some (Inr j, w')"
    using while_loop_exit_unbounded that by blast
  show "\<exists>w1. while_loop (Suc fuel) env a ps cs 0 w = Some (Inr 1, w1)"
    if h: "calm env \<and> 0 \<le> wait_after_change a \<and> wait_after_change a \<le> 9223372036
        \<and> \<not> stop_event w \<and> run_once a"
  proof -
    from h body_calm [of env a ps cs "0 + 1" w]
    obtain w1 where "iteration_body env a ps cs (0 + 1) w = (Inr True, w1)" by auto
    from while_loop_run_once [OF _ _ this, of fuel] h show ?thesis by auto
  qed
  show "\<exists>w1. while_loop (nat (count a)) env a ps cs 0 w = Some (Inr (count a), w1)"
    "\<forall>k<nat (count a). while_loop k env a ps cs 0 w = None"
    if h: "calm env \<and> 0 \<le> wait_after_change a \<and> wait_after_change a \<le> 9223372036
        \<and> \<not> stop_event w \<and> \<not> run_once a \<and> 0 < count a"
    using while_loop_count [of env a w 0 "nat (count a)" ps cs] h by simp_all
  show "\<forall>k. while_loop k env a ps cs 0 w = None"
    if h: "calm env \<and> 0 \<le> wait_after_change a \<and> wait_after_change a \<le> 9223372036
        \<and> \<not> stop_event w \<and> \<not> run_once a \<and> count a = 0"
    using while_loop_unbounded h by blast
qed

lemma calm_env_calm: "calm env_calm"
  by (simp add: calm_def env_calm_def)

theorem while_loop_exits_witness:
  "calm env_calm \<and> 0 \<le> wait_after_change args_idle
   \<and> wait_after_change args_idle \<le> 9223372036 \<and> \<not> stop_event w_init
   \<and> \<not> run_once args_idle \<and> 0 < count args_idle
   \<and> (\<exists>w1. while_loop 2 env_calm args_idle [] [] 0 w_init = Some (Inr 2, w1))
   \<and> while_loop 1 env_calm args_idle [] [] 0 w_init = None
   \<and> run_once (args_idle\<lparr>run_once := True\<rparr>)
   \<and> (\<exists>w1. while_loop 1 env_calm (args_idle\<lparr>run_once := True\<rparr>) [] [] 0 w_init = Some (Inr 1, w1))
   \<and> stop_event (w_init\<lparr>stop_event := True\<rparr>)
   \<and> while_loop 1 env_calm args_idle [] [] 0 (w_init\<lparr>stop_event := True\<rparr>)
        = Some (Inr 0, w_init\<lparr>stop_event := True\<rparr>)"
proof -
  have h: "0 \<le> wait_after_change args_idle" "\<not> stop_event w_init" "\<not> run_once args_idle"
    "0 < count args_idle" "nat (count args_idle) = 2" "count args_idle = 2"
    "0 \<le> wait_after_change (args_idle\<lparr>run_once := True\<rparr>)"
    "wait_after_change args_idle \<le> 9223372036"
    "wait_after_change (args_idle\<lparr>run_once := True\<rparr>) \<le> 9223372036"
    by (simp_all add: args_idle_def w_init_def)
  have one: "(1::nat) < 2" by simp
  note t = while_loop_exits [of _ _ env_calm _ "[]" "[]"]
  from t [of w_init 0 args_idle] h calm_env_calm
  have a: "\<exists>w1. while_loop 2 env_calm args_idle [] [] 0 w_init = Some (Inr 2, w1)"
    and b: "\<forall>k<2. while_loop k env_calm args_idle [] [] 0 w_init = None"
    by simp_all
  from b one have b1: "while_loop 1 env_calm args_idle [] [] 0 w_init = None" by blast
  from t [of w_init 0 "args_idle\<lparr>run_once := True\<rparr>"] h calm_env_calm
  have c: "\<exists>w1. while_loop 1 env_calm (args_idle\<lparr>run_once := True\<rparr>) [] [] 0 w_init = Some (Inr 1, w1)"
    by simp
  from t [of "w_init\<lparr>stop_event := True\<rparr>" 0 args_idle 0]
  have d: "while_loop 1 env_calm args_idle [] [] 0 (w_init\<lparr>stop_event := True\<rparr>)
        = Some (Inr 0, w_init\<lparr>stop_event := True\<rparr>)"
    by simp
  from a b1 c d h calm_env_calm show ?thesis by simp
qed

section \<open>Waiting and cancellation\<close>

lemma wait_loop_emits:
  "\<exists>evs. trace (snd (wait_loop env total_ms start w)) = trace w @ evs
     \<and> list_all (\<lambda>e. e = Sleep 500 \<or> e = LogWrite ''Interrupt received, stopping...'') evs"
proof (induction env total_ms start w rule: wait_loop.induct)
  case (1 env total_ms start w)
  let ?P = "\<lambda>e. e = Sleep 500 \<or> e = LogWrite ''Interrupt received, stopping...''"
  show ?case
  proof (cases "clock w - start < total_ms \<and> \<not> stop_event w")
    case False
    then show ?thesis by (auto simp: wait_loop.simps [of env total_ms start w])
  next
    case True
    obtain r w1 where s: "sleep env 500 w = (r, w1)" by (cases "sleep env 500 w")
    have "emits ?P (sleep env 500)"
      unfolding sleep_def by (simp add: emits_intros emits_step)
    then have "\<exists>evs. trace (snd (sleep env 500 w)) = trace w @ evs \<and> list_all ?P evs"
      unfolding emits_def by (rule spec)
    with s obtain evs1 where e1: "trace w1 = trace w @ evs1" "list_all ?P evs1"
      by auto
    show ?thesis
    proof (cases r)
      case (Inl e)
      with True s e1 show ?thesis by (simp add: wait_loop.simps [of env total_ms start w])
    next
      case (Inr u)
      from 1 [OF _ _ s[symmetric] Inr] True
      obtain evs2 where "trace (snd (wait_loop env total_ms start w1)) = trace w1 @ evs2"
        "list_all ?P evs2" by auto
      with True s e1 Inr show ?thesis by (simp add: wait_loop.simps [of env total_ms start w])
    qed
  qed
qed






section \<open>The VPN cycle\<close>

lemma emitsD:
  assumes "emits P m" "m w = (r, w')"
  shows "\<exists>evs. trace w' = trace w @ evs \<and> list_all P evs"
proof -
  from assms(1) have "\<exists>evs. trace (snd (m w)) = trace w @ evs \<and> list_all P evs"
    unfolding emits_def by (rule spec)
  with assms(2) show ?thesis by simp
qed

lemma io_bind_Inr:
  assumes "io_bind m f w = (Inr y, w')"
  obtains x w1 where "m w = (Inr x, w1)" "f x w1 = (Inr y, w')"
  using assms unfolding io_bind_def by (auto split: prod.splits sum.splits)

lemma step_first:
  "\<exists>r w' evs. step env e d w = (r, w') \<and> trace w' = trace w @ e # evs"
  by (auto simp: step_def raw_step_def signal_handler_def raw_log_def io_bind_def
        io_return_def Let_def split: option.splits)

lemma emits_any_log: "emits (\<lambda>e. True) (log env msg)"
  by (rule emits_log) simp_all

lemma emits_any_sleep: "emits (\<lambda>e. True) (sleep env ms)"
  unfolding sleep_def by (simp add: emits_intros emits_step)

lemma emits_any_check_ip: "emits (\<lambda>e. True) (check_ip env proxies timeout)"
  unfolding check_ip_def requests_get_def Let_def by (intro emits_intros emits_step) simp_all

lemma kill_then_log:
  "\<exists>evs. trace (snd (io_bind (io_try (kill env p) (\<lambda>_. io_return ()))
                         (\<lambda>_. log env ''VPN process killed.'') w))
         = trace w @ Kill p # evs"
proof -
  obtain r w1 evs1 where k: "step env (Kill p) 0 w = (r, w1)" "trace w1 = trace w @ Kill p # evs1"
    using step_first by blast
  have t: "io_try (kill env p) (\<lambda>_. io_return ()) w = (Inr (), w1)"
    using k(1) by (cases r) (simp_all add: io_try_def kill_def io_bind_def io_return_def)
  obtain r2 w2 where l: "log env ''VPN process killed.'' w1 = (r2, w2)"
    by (cases "log env ''VPN process killed.'' w1")
  from emitsD [OF emits_any_log l] obtain evs2 where "trace w2 = trace w1 @ evs2" by blast
  with t l k(2) show ?thesis by (simp add: io_bind_def)
qed

lemma stop_process_sequence:
  "(\<exists>evs. trace (snd (stop_process env p w)) = trace w @ Terminate p # evs
       \<and> (WaitProc p 10 \<in> set evs \<or> Kill p \<in> set evs))
   \<and> (terminate env p w = (Inl e, w1)
       \<longrightarrow> (\<exists>evs. trace (snd (stop_process env p w)) = trace w1 @ Kill p # evs))
   \<and> (terminate env p w = (Inr (), w1) \<and> wait_proc env p 10 w1 = (Inl e, w2)
       \<longrightarrow> (\<exists>evs. trace (snd (stop_process env p w)) = trace w2 @ Kill p # evs))
   \<and> (terminate env p w = (Inr (), w1) \<and> wait_proc env p 10 w1 = (Inr (), w2)
        \<and> log env ''VPN process terminated.'' w2 = (Inr (), w3)
       \<longrightarrow> stop_process env p w = (Inr (), w3))"
proof -
  let ?h = "io_bind (io_try (kill env p) (\<lambda>_. io_return ())) (\<lambda>_. log env ''VPN process killed.'')"
  have A: "\<exists>evs. trace (snd (stop_process env p w)) = trace w1 @ Kill p # evs"
    if "terminate env p w = (Inl e, w1)" for e w1
  proof -
    have "stop_process env p w = ?h w1"
      using that by (simp add: stop_process_def io_try_def io_bind_def)
    then show ?thesis using kill_then_log [of env p w1] by simp
  qed
  have B: "\<exists>evs. trace (snd (stop_process env p w)) = trace w2 @ Kill p # evs"
    if "terminate env p w = (Inr (), w1)" "wait_proc env p 10 w1 = (Inl e, w2)" for e w1 w2
  proof -
    have "stop_process env p w = ?h w2"
      using that by (simp add: stop_process_def io_try_def io_bind_def)
    then show ?thesis using kill_then_log [of env p w2] by simp
  qed
  have C: "stop_process env p w = (Inr (), w3)"
    if "terminate env p w = (Inr (), w1)" "wait_proc env p 10 w1 = (Inr (), w2)"
       "log env ''VPN process terminated.'' w2 = (Inr (), w3)" for w1 w2 w3
    using that by (simp add: stop_process_def io_try_def io_bind_def)
  have D: "\<exists>evs. trace (snd (stop_process env p w)) = trace w @ Terminate p # evs
       \<and> (WaitProc p 10 \<in> set evs \<or> Kill p \<in> set evs)"
  proof -
    obtain r w1 evs1 where t: "step env (Terminate p) 0 w = (r, w1)"
      "trace w1 = trace w @ Terminate p # evs1"
      using step_first by blast
    show ?thesis
    proof (cases r)
      case (Inl e)
      then have "terminate env p w = (Inl e, w1)"
        using t(1) by (simp add: terminate_def io_bind_def)
      from A [OF this] t(2) show ?thesis by auto
    next
      case (Inr n)
      then have te: "terminate env p w = (Inr (), w1)"
        using t(1) by (simp add: terminate_def io_bind_def io_return_def)
      obtain r2 w2 evs2 where wt: "step env (WaitProc p 10) 0 w1 = (r2, w2)"
        "trace w2 = trace w1 @ WaitProc p 10 # evs2"
        using step_first by blast
      show ?thesis
      proof (cases r2)
        case (Inl e)
        then have "wait_proc env p 10 w1 = (Inl e, w2)"
          using wt(1) by (simp add: wait_proc_def io_bind_def)
        from B [OF te this] t(2) wt(2) show ?thesis by auto
      next
        case (Inr m)
        then have wa: "wait_proc env p 10 w1 = (Inr (), w2)"
          using wt(1) by (simp add: wait_proc_def io_bind_def io_return_def)
        obtain r3 w3 where l: "log env ''VPN process terminated.'' w2 = (r3, w3)"
          by (cases "log env ''VPN process terminated.'' w2")
        from emitsD [OF emits_any_log l] obtain evs3 where e3: "trace w3 = trace w2 @ evs3"
          by blast
        show ?thesis
        proof (cases r3)
          case (Inr u)
          with te wa l have "stop_process env p w = (Inr (), w3)"
            by (simp add: stop_process_def io_try_def io_bind_def)
          with t(2) wt(2) e3 show ?thesis by simp
        next
          case (Inl e)
          with te wa l have "stop_process env p w = ?h w3"
            by (simp add: stop_process_def io_try_def io_bind_def)
          with kill_then_log [of env p w3] t(2) wt(2) e3 show ?thesis by auto
        qed
      qed
    qed
  qed
  from A B C D show ?thesis by blast
qed

lemma stop_process_first:
  "\<exists>evs. trace (snd (stop_process env p w)) = trace w @ Terminate p # evs
       \<and> (WaitProc p 10 \<in> set evs \<or> Kill p \<in> set evs)"
  using stop_process_sequence [of env p w] by (rule conjunct1)

lemma run_once_vpn_after_start:
  assumes c: "check_ip env None 10 w = (Inr before, w1)"
    and l: "log env (''IP before (direct): '' @ before) w1 = (Inr (), w2)"
    and s: "start_openvpn env ovpn_path w2 = (Inr (Some p), w3)"
    and r: "run_once_vpn env a ovpn_path w = (Inr (), w')"
  shows "\<exists>evs1 evs2. trace w' = trace w3 @ evs1 @ Terminate p # evs2
           \<and> (WaitProc p 10 \<in> set evs2 \<or> Kill p \<in> set evs2)"
proof -
  let ?wait = "max 5 (wait_after_change a)"
  have "io_bind (log env (''Sleeping '' @ str_int ?wait @ '' seconds for VPN to establish...''))
             (\<lambda>_.
           io_bind (sleep env (1000 * ?wait)) (\<lambda>_.
           io_bind (check_ip env None 10) (\<lambda>after.
           io_bind (log env (''IP after VPN: '' @ after)) (\<lambda>_.
           io_bind (stop_process env p) (\<lambda>_.
           sleep env 2000))))) w3 = (Inr (), w')"
    using r c l s by (simp add: run_once_vpn_def io_bind_def Let_def)
  then obtain u4 w4 where 4: "log env (''Sleeping '' @ str_int ?wait @ '' seconds for VPN to establish...'') w3 = (Inr u4, w4)"
    and r4: "io_bind (sleep env (1000 * ?wait)) (\<lambda>_.
           io_bind (check_ip env None 10) (\<lambda>after.
           io_bind (log env (''IP after VPN: '' @ after)) (\<lambda>_.
           io_bind (stop_process env p) (\<lambda>_.
           sleep env 2000)))) w4 = (Inr (), w')"
    by (rule io_bind_Inr)
  from r4 obtain u5 w5 where 5: "sleep env (1000 * ?wait) w4 = (Inr u5, w5)"
    and r5: "io_bind (check_ip env None 10) (\<lambda>after.
           io_bind (log env (''IP after VPN: '' @ after)) (\<lambda>_.
           io_bind (stop_process env p) (\<lambda>_.
           sleep env 2000))) w5 = (Inr (), w')"
    by (rule io_bind_Inr)
  from r5 obtain after w6 where 6: "check_ip env None 10 w5 = (Inr after, w6)"
    and r6: "io_bind (log env (''IP after VPN: '' @ after)) (\<lambda>_.
           io_bind (stop_process env p) (\<lambda>_.
           sleep env 2000)) w6 = (Inr (), w')"
    by (rule io_bind_Inr)
  from r6 obtain u7 w7 where 7: "log env (''IP after VPN: '' @ after) w6 = (Inr u7, w7)"
    and r7: "io_bind (stop_process env p) (\<lambda>_. sleep env 2000) w7 = (Inr (), w')"
    by (rule io_bind_Inr)
  from r7 obtain u8 w8 where 8: "stop_process env p w7 = (Inr u8, w8)"
    and 9: "sleep env 2000 w8 = (Inr (), w')"
    by (rule io_bind_Inr)
  from emitsD [OF emits_any_log 4] obtain e4 where t4: "trace w4 = trace w3 @ e4" by blast
  from emitsD [OF emits_any_sleep 5] obtain e5 where t5: "trace w5 = trace w4 @ e5" by blast
  from emitsD [OF emits_any_check_ip 6] obtain e6 where t6: "trace w6 = trace w5 @ e6" by blast
  from emitsD [OF emits_any_log 7] obtain e7 where t7: "trace w7 = trace w6 @ e7" by blast
  from stop_process_first [of env p w7] 8
  obtain e8 where t8: "trace w8 = trace w7 @ Terminate p # e8"
    and k: "WaitProc p 10 \<in> set e8 \<or> Kill p \<in> set e8" by auto
  from emitsD [OF emits_any_sleep 9] obtain e9 where t9: "trace w' = trace w8 @ e9" by blast
  have "trace w' = trace w3 @ (e4 @ e5 @ e6 @ e7) @ Terminate p # (e8 @ e9)"
    using t4 t5 t6 t7 t8 t9 by simp
  moreover have "WaitProc p 10 \<in> set (e8 @ e9) \<or> Kill p \<in> set (e8 @ e9)"
    using k by auto
  ultimately show ?thesis by blast
qed

lemma io_bind_None:
  "io_bind m (\<lambda>_. io_return None) w \<noteq> (Inr (Some p), w')"
  unfolding io_bind_def io_return_def by (auto split: prod.splits sum.splits)

lemma start_openvpn_Some:
  assumes "start_openvpn env config_path w = (Inr (Some p), w')"
  shows "\<exists>v1 v2 v3 n v4.
           log env (''Starting OpenVPN config: '' @ config_path) w = (Inr (), v1)
         \<and> popen env [''sudo'', ''openvpn'', ''--config'', config_path] v1 = (Inr p, v2)
         \<and> sleep env 2000 v2 = (Inr (), v3)
         \<and> step env (Poll p) 0 v3 = (Inr n, v4) \<and> status env n = None
         \<and> log env ''OpenVPN process started.'' v4 = (Inr (), w')"
proof -
  let ?body = "io_bind (popen env [''sudo'', ''openvpn'', ''--config'', config_path]) (\<lambda>p.
        io_bind (sleep env 2000) (\<lambda>_.
        io_bind (poll env p) (\<lambda>returncode.
          case returncode of
            None \<Rightarrow>
              io_bind (log env ''OpenVPN process started.'') (\<lambda>_. io_return (Some p))
          | Some rc \<Rightarrow>
              io_bind (log env (''OpenVPN process exited quickly. Returncode: '' @ str_int rc))
                (\<lambda>_. io_return None))))"
  let ?h = "\<lambda>e. if exc_cls e = FileNotFoundError then
              io_bind (log env ''openvpn binary not found. Install OpenVPN (e.g. apt install openvpn).'')
                (\<lambda>_. io_return None)
            else
              io_bind (log env (''Failed to start openvpn: '' @ exc_str e)) (\<lambda>_. io_return None)"
  from assms obtain u1 v1 where 1: "log env (''Starting OpenVPN config: '' @ config_path) w = (Inr u1, v1)"
    and t: "io_try ?body ?h v1 = (Inr (Some p), w')"
    unfolding start_openvpn_def by (rule io_bind_Inr)
  obtain r vb where b: "?body v1 = (r, vb)" by (cases "?body v1")
  have body: "?body v1 = (Inr (Some p), w')"
  proof (cases r)
    case (Inr x)
    with t b show ?thesis by (simp add: io_try_def)
  next
    case (Inl e)
    with t b have "?h e vb = (Inr (Some p), w')" by (simp add: io_try_def)
    then show ?thesis by (simp add: io_bind_None split: if_splits)
  qed
  then obtain q v2 where 2: "popen env [''sudo'', ''openvpn'', ''--config'', config_path] v1 = (Inr q, v2)"
    and r2: "io_bind (sleep env 2000) (\<lambda>_.
        io_bind (poll env q) (\<lambda>returncode.
          case returncode of
            None \<Rightarrow>
              io_bind (log env ''OpenVPN process started.'') (\<lambda>_. io_return (Some q))
          | Some rc \<Rightarrow>
              io_bind (log env (''OpenVPN process exited quickly. Returncode: '' @ str_int rc))
                (\<lambda>_. io_return None))) v2 = (Inr (Some p), w')"
    by (rule io_bind_Inr)
  from r2 obtain u3 v3 where 3: "sleep env 2000 v2 = (Inr u3, v3)"
    and r3: "io_bind (poll env q) (\<lambda>returncode.
          case returncode of
            None \<Rightarrow>
              io_bind (log env ''OpenVPN process started.'') (\<lambda>_. io_return (Some q))
          | Some rc \<Rightarrow>
              io_bind (log env (''OpenVPN process exited quickly. Returncode: '' @ str_int rc))
                (\<lambda>_. io_return None)) v3 = (Inr (Some p), w')"
    by (rule io_bind_Inr)
  from r3 obtain rc v4 where 4: "poll env q v3 = (Inr rc, v4)"
    and r4: "(case rc of
            None \<Rightarrow>
              io_bind (log env ''OpenVPN process started.'') (\<lambda>_. io_return (Some q))
          | Some c \<Rightarrow>
              io_bind (log env (''OpenVPN process exited quickly. Returncode: '' @ str_int c))
                (\<lambda>_. io_return None)) v4 = (Inr (Some p), w')"
    by (rule io_bind_Inr)
  from 4 obtain n where n: "step env (Poll q) 0 v3 = (Inr n, v4)" "rc = status env n"
    unfolding poll_def io_bind_def io_return_def by (auto split: prod.splits sum.splits)
  have rcN: "rc = None"
  proof (cases rc)
    case None then show ?thesis .
  next
    case (Some c)
    with r4 show ?thesis by (simp add: io_bind_None)
  qed
  with r4 have "io_bind (log env ''OpenVPN process started.'') (\<lambda>_. io_return (Some q)) v4
      = (Inr (Some p), w')" by simp
  then obtain u5 v5 where 5: "log env ''OpenVPN process started.'' v4 = (Inr u5, v5)"
    and r5: "io_return (Some q) v5 = (Inr (Some p), w')"
    by (rule io_bind_Inr)
  from r5 have "q = p" "v5 = w'" by (simp_all add: io_return_def)
  with 1 2 3 n rcN 5 show ?thesis by auto
qed

text \<open>
  When the log line after the poll raises, the handler of \<open>start_openvpn\<close> takes it
  for a failed start: the cycle returns normally, with the process running and no
  teardown.
\<close>

lemma start_log_failure_leaks:
  "run_once_vpn env_startlog args_vpn ''/etc/openvpn/a.ovpn'' w_init = (Inr (), w_leak)"
  by code_simp

text \<open>
  C6, as the code has it. Let a VPN cycle be one in which \<open>start_openvpn\<close> returns
  the process: the launch returned, the process was still running at the poll after the
  grace delay, and the log line \<open>OpenVPN process started.\<close> was written. When such a
  cycle returns normally, the teardown has run after the start: terminate, then the
  wait with the 10-second timeout or the kill. In \<open>stop_process\<close> the kill follows
  when terminate raises and when the wait raises, and is left out when terminate, the
  wait and the log line after them succeed.
\<close>

theorem run_once_vpn_teardown:
  "(check_ip env None 10 w = (Inr before, w1)
      \<and> log env (''IP before (direct): '' @ before) w1 = (Inr (), w2)
      \<and> start_openvpn env ovpn_path w2 = (Inr (Some p), w3)
      \<and> run_once_vpn env a ovpn_path w = (Inr (), w')
     \<longrightarrow> (\<exists>evs1 evs2. trace w' = trace w3 @ evs1 @ Terminate p # evs2
            \<and> (WaitProc p 10 \<in> set evs2 \<or> Kill p \<in> set evs2)))
   \<and> (terminate env p s = (Inl e, s1)
       \<longrightarrow> (\<exists>evs. trace (snd (stop_process env p s)) = trace s1 @ Kill p # evs))
   \<and> (terminate env p s = (Inr (), s1) \<and> wait_proc env p 10 s1 = (Inl e, s2)
       \<longrightarrow> (\<exists>evs. trace (snd (stop_process env p s)) = trace s2 @ Kill p # evs))
   \<and> (terminate env p s = (Inr (), s1) \<and> wait_proc env p 10 s1 = (Inr (), s2)
        \<and> log env ''VPN process terminated.'' s2 = (Inr (), s3)
       \<longrightarrow> stop_process env p s = (Inr (), s3))
   \<and> (start_openvpn env ovpn_path w2 = (Inr (Some p), w3)
       \<longrightarrow> (\<exists>v1 v2 v3 n v4.
           log env (''Starting OpenVPN config: '' @ ovpn_path) w2 = (Inr (), v1)
         \<and> popen env [''sudo'', ''openvpn'', ''--config'', ovpn_path] v1 = (Inr p, v2)
         \<and> sleep env 2000 v2 = (Inr (), v3)
         \<and> step env (Poll p) 0 v3 = (Inr n, v4) \<and> status env n = None
         \<and> log env ''OpenVPN process started.'' v4 = (Inr (), w3)))"
proof (intro conjI impI)
  show "\<exists>evs1 evs2. trace w' = trace w3 @ evs1 @ Terminate p # evs2
            \<and> (WaitProc p 10 \<in> set evs2 \<or> Kill p \<in> set evs2)"
    if "check_ip env None 10 w = (Inr before, w1)
      \<and> log env (''IP before (direct): '' @ before) w1 = (Inr (), w2)
      \<and> start_openvpn env ovpn_path w2 = (Inr (Some p), w3)
      \<and> run_once_vpn env a ovpn_path w = (Inr (), w')"
    using that run_once_vpn_after_start [of env w before w1 w2 ovpn_path p w3 a w'] by blast
  show "\<exists>evs. trace (snd (stop_process env p s)) = trace s1 @ Kill p # evs"
    if "terminate env p s = (Inl e, s1)"
    using that stop_process_sequence [of env p s e s1 s2 s3] by blast
  show "\<exists>evs. trace (snd (stop_process env p s)) = trace s2 @ Kill p # evs"
    if "terminate env p s = (Inr (), s1) \<and> wait_proc env p 10 s1 = (Inl e, s2)"
    using that stop_process_sequence [of env p s e s1 s2 s3] by blast
  show "stop_process env p s = (Inr (), s3)"
    if "terminate env p s = (Inr (), s1) \<and> wait_proc env p 10 s1 = (Inr (), s2)
        \<and> log env ''VPN process terminated.'' s2 = (Inr (), s3)"
    using that stop_process_sequence [of env p s e s1 s2 s3] by blast
  show "\<exists>v1 v2 v3 n v4.
           log env (''Starting OpenVPN config: '' @ ovpn_path) w2 = (Inr (), v1)
         \<and> popen env [''sudo'', ''openvpn'', ''--config'', ovpn_path] v1 = (Inr p, v2)
         \<and> sleep env 2000 v2 = (Inr (), v3)
         \<and> step env (Poll p) 0 v3 = (Inr n, v4) \<and> status env n = None
         \<and> log env ''OpenVPN process started.'' v4 = (Inr (), w3)"
    if "start_openvpn env ovpn_path w2 = (Inr (Some p), w3)"
    using that by (rule start_openvpn_Some)
qed

theorem run_once_vpn_teardown_witness:
  "check_ip env_timeout None 10 w_init
     = (Inr ''203.0.113.7'', w_init\<lparr>trace := [HttpGet None 10]\<rparr>)
   \<and> log env_timeout (''IP before (direct): '' @ ''203.0.113.7'') (w_init\<lparr>trace := [HttpGet None 10]\<rparr>)
     = (Inr (), w_init\<lparr>trace := [HttpGet None 10, LogWrite ''IP before (direct): 203.0.113.7'']\<rparr>)
   \<and> start_openvpn env_timeout ''/etc/openvpn/a.ovpn''
       (w_init\<lparr>trace := [HttpGet None 10, LogWrite ''IP before (direct): 203.0.113.7'']\<rparr>)
     = (Inr (Some 3), w_up)
   \<and> run_once_vpn env_timeout args_vpn ''/etc/openvpn/a.ovpn'' w_init = (Inr (), w_down)
   \<and> (\<exists>evs1 evs2. trace w_down = trace w_up @ evs1 @ Terminate 3 # evs2
            \<and> (WaitProc 3 10 \<in> set evs2 \<or> Kill 3 \<in> set evs2))"
proof -
  have c: "check_ip env_timeout None 10 w_init
     = (Inr ''203.0.113.7'', w_init\<lparr>trace := [HttpGet None 10]\<rparr>)"
    by code_simp
  have l: "log env_timeout (''IP before (direct): '' @ ''203.0.113.7'') (w_init\<lparr>trace := [HttpGet None 10]\<rparr>)
     = (Inr (), w_init\<lparr>trace := [HttpGet None 10, LogWrite ''IP before (direct): 203.0.113.7'']\<rparr>)"
    by code_simp
  have s: "start_openvpn env_timeout ''/etc/openvpn/a.ovpn''
       (w_init\<lparr>trace := [HttpGet None 10, LogWrite ''IP before (direct): 203.0.113.7'']\<rparr>)
     = (Inr (Some 3), w_up)"
    by code_simp
  have r: "run_once_vpn env_timeout args_vpn ''/etc/openvpn/a.ovpn'' w_init = (Inr (), w_down)"
    by code_simp
  from run_once_vpn_teardown
         [of env_timeout w_init "''203.0.113.7''" "w_init\<lparr>trace := [HttpGet None 10]\<rparr>"
             "w_init\<lparr>trace := [HttpGet None 10, LogWrite ''IP before (direct): 203.0.113.7'']\<rparr>"
             "''/etc/openvpn/a.ovpn''" 3 w_up args_vpn w_down]
    c l s r
  have "\<exists>evs1 evs2. trace w_down = trace w_up @ evs1 @ Terminate 3 # evs2
            \<and> (WaitProc 3 10 \<in> set evs2 \<or> Kill 3 \<in> set evs2)"
    by blast
  with c l s r show ?thesis by blast
qed

text \<open>
  C6, as stated, fails on the path where a logging step raises: when the log write
  after the second probe fails, the error leaves \<open>run_once_vpn\<close> with the VPN
  process started and never terminated.
\<close>

theorem run_once_vpn_leak_counterexample:
  "run_once_vpn env_logfail args_vpn ''/etc/openvpn/a.ovpn'' w_init
  = (Inl (Exc OSError ''[Errno 28] No space left on device''),
     \<lparr>trace = [HttpGet None 10, LogWrite ''IP before (direct): 203.0.113.7'',
       LogWrite ''Starting OpenVPN config: /etc/openvpn/a.ovpn'',
       Popen [''sudo'', ''openvpn'', ''--config'', ''/etc/openvpn/a.ovpn''],
       Sleep 2000, Poll 3, LogWrite ''OpenVPN process started.'',
       LogWrite ''Sleeping 5 seconds for VPN to establish...'', Sleep 5000,
       HttpGet None 10, LogWrite ''IP after VPN: 203.0.113.7''], clock = 7000, stop_event = False\<rparr>)
   \<and> Terminate 3 \<notin> set (trace (snd (run_once_vpn env_logfail args_vpn ''/etc/openvpn/a.ovpn'' w_init)))"
  by code_simp

section \<open>The Tor adapter\<close>

text \<open>The definitions to unfold when a run is evaluated on a concrete environment.\<close>

lemmas run_defs = io_bind_def io_try_def io_return_def io_raise_def log_def step_def raw_step_def
  Let_def sleep_def requests_get_def check_ip_def sock_connect_def sock_send_def
  sock_readline_def sock_close_def input_line_def check_call_def popen_def poll_def
  terminate_def wait_proc_def kill_def signal_handler_def raw_log_def

lemma newnym_no_restart:
  "emits (\<lambda>e. \<not> is_restart e) (tor_newnym_via_control env h p pw t)"
  unfolding tor_newnym_via_control_def sock_connect_def sock_send_def sock_readline_def
    sock_close_def
  by (intro emits_intros emits_step emits_log) (simp_all add: is_restart_def)

lemma io_try_True:
  assumes "io_try m (\<lambda>e. io_bind (l e) (\<lambda>_. io_return False)) w = (Inr True, w')"
  shows "m w = (Inr True, w')"
  using assms unfolding io_try_def io_bind_def io_return_def
  by (auto split: prod.splits sum.splits)

lemma io_bind_log_False:
  "io_bind (log env msg) (\<lambda>_. io_bind m (\<lambda>_. io_return False)) w \<noteq> (Inr True, w')"
  unfolding io_bind_def io_return_def by (auto split: prod.splits sum.splits)

lemma io_bind_False:
  "io_bind m (\<lambda>_. io_return False) w \<noteq> (Inr True, w')"
  unfolding io_bind_def io_return_def by (auto split: prod.splits sum.splits)

lemma newnym_True:
  assumes "tor_newnym_via_control env h p pw t w = (Inr True, w')"
  shows "\<exists>w1 w2 n3 w3 w4 n5 w5.
           sock_connect env h p t w = (Inr (), w1)
         \<and> sock_send env (if truthy pw
                    then ''AUTHENTICATE '' @ [CHR 0x22] @ the pw @ [CHR 0x22] @ crlf
                    else ''AUTHENTICATE'' @ crlf) w1 = (Inr (), w2)
         \<and> step env SockRecv 0 w2 = (Inr n3, w3) \<and> startswith (reply env n3) ''250''
         \<and> sock_send env (''SIGNAL NEWNYM'' @ crlf) w3 = (Inr (), w4)
         \<and> step env SockRecv 0 w4 = (Inr n5, w5) \<and> startswith (reply env n5) ''250''
         \<and> sock_close env w5 = (Inr (), w')"
proof -
  let ?auth = "if truthy pw
                    then ''AUTHENTICATE '' @ [CHR 0x22] @ the pw @ [CHR 0x22] @ crlf
                    else ''AUTHENTICATE'' @ crlf"
  let ?k3 = "\<lambda>auth_resp.
          if \<not> startswith auth_resp ''250'' then
            io_bind (log env (''Tor control auth failed: '' @ strip auth_resp)) (\<lambda>_.
            io_bind (sock_close env) (\<lambda>_.
            io_return False))
          else
            io_bind (sock_send env (''SIGNAL NEWNYM'' @ crlf)) (\<lambda>_.
            io_bind (sock_readline env) (\<lambda>resp.
            io_bind (sock_close env) (\<lambda>_.
              if startswith resp ''250'' then io_return True
              else
                io_bind (log env (''Tor control SIGNAL response: '' @ strip resp)) (\<lambda>_.
                io_return False))))"
  have "io_bind (sock_connect env h p t) (\<lambda>_.
        io_bind (sock_send env ?auth) (\<lambda>_.
        io_bind (sock_readline env) ?k3)) w = (Inr True, w')"
    using assms unfolding tor_newnym_via_control_def by (rule io_try_True)
  then obtain u1 w1 where 1: "sock_connect env h p t w = (Inr u1, w1)"
    and r1: "io_bind (sock_send env ?auth) (\<lambda>_. io_bind (sock_readline env) ?k3) w1 = (Inr True, w')"
    by (rule io_bind_Inr)
  from r1 obtain u2 w2 where 2: "sock_send env ?auth w1 = (Inr u2, w2)"
    and r2: "io_bind (sock_readline env) ?k3 w2 = (Inr True, w')"
    by (rule io_bind_Inr)
  from r2 obtain auth_resp w3 where 3: "sock_readline env w2 = (Inr auth_resp, w3)"
    and r3: "?k3 auth_resp w3 = (Inr True, w')"
    by (rule io_bind_Inr)
  from 3 obtain n3 where n3: "step env SockRecv 0 w2 = (Inr n3, w3)" "auth_resp = reply env n3"
    unfolding sock_readline_def io_bind_def io_return_def by (auto split: prod.splits sum.splits)
  have a: "startswith auth_resp ''250''"
  proof (rule ccontr)
    assume "\<not> startswith auth_resp ''250''"
    with r3 show False by (simp add: io_bind_log_False)
  qed
  with r3 have "io_bind (sock_send env (''SIGNAL NEWNYM'' @ crlf)) (\<lambda>_.
            io_bind (sock_readline env) (\<lambda>resp.
            io_bind (sock_close env) (\<lambda>_.
              if startswith resp ''250'' then io_return True
              else
                io_bind (log env (''Tor control SIGNAL response: '' @ strip resp)) (\<lambda>_.
                io_return False)))) w3 = (Inr True, w')" by simp
  then obtain u4 w4 where 4: "sock_send env (''SIGNAL NEWNYM'' @ crlf) w3 = (Inr u4, w4)"
    and r4: "io_bind (sock_readline env) (\<lambda>resp.
            io_bind (sock_close env) (\<lambda>_.
              if startswith resp ''250'' then io_return True
              else
                io_bind (log env (''Tor control SIGNAL response: '' @ strip resp)) (\<lambda>_.
                io_return False))) w4 = (Inr True, w')"
    by (rule io_bind_Inr)
  from r4 obtain resp w5 where 5: "sock_readline env w4 = (Inr resp, w5)"
    and r5: "io_bind (sock_close env) (\<lambda>_.
              if startswith resp ''250'' then io_return True
              else
                io_bind (log env (''Tor control SIGNAL response: '' @ strip resp)) (\<lambda>_.
                io_return False)) w5 = (Inr True, w')"
    by (rule io_bind_Inr)
  from 5 obtain n5 where n5: "step env SockRecv 0 w4 = (Inr n5, w5)" "resp = reply env n5"
    unfolding sock_readline_def io_bind_def io_return_def by (auto split: prod.splits sum.splits)
  from r5 obtain u6 w6 where 6: "sock_close env w5 = (Inr u6, w6)"
    and r6: "(if startswith resp ''250'' then io_return True
              else
                io_bind (log env (''Tor control SIGNAL response: '' @ strip resp)) (\<lambda>_.
                io_return False)) w6 = (Inr True, w')"
    by (rule io_bind_Inr)
  have b: "startswith resp ''250''"
  proof (rule ccontr)
    assume "\<not> startswith resp ''250''"
    with r6 show False by (simp add: io_bind_False)
  qed
  with r6 have "w6 = w'" by (simp add: io_return_def)
  with 1 2 n3 a 4 n5 b 6 show ?thesis by auto
qed

lemma starts_step: "starts e (step env e d)"
  unfolding starts_def using step_first [of env e d] by (metis snd_conv)

lemma starts_bind:
  assumes "starts e m" "\<And>x. emits (\<lambda>e. True) (f x)"
  shows "starts e (io_bind m f)"
  unfolding starts_def
proof
  fix w
  obtain r w1 where m: "m w = (r, w1)" by (cases "m w")
  from assms(1) have "\<exists>evs. trace (snd (m w)) = trace w @ e # evs"
    unfolding starts_def by (rule spec)
  with m obtain evs1 where e1: "trace w1 = trace w @ e # evs1" by auto
  show "\<exists>evs. trace (snd (io_bind m f w)) = trace w @ e # evs"
  proof (cases r)
    case (Inl x)
    with m e1 show ?thesis by (simp add: io_bind_def)
  next
    case (Inr x)
    obtain r2 w2 where f: "f x w1 = (r2, w2)" by (cases "f x w1")
    from emitsD [OF assms(2) f] obtain evs2 where "trace w2 = trace w1 @ evs2" by blast
    with m e1 Inr f show ?thesis by (simp add: io_bind_def)
  qed
qed

lemma starts_try:
  assumes "starts e m" "\<And>x. emits (\<lambda>e. True) (h x)"
  shows "starts e (io_try m h)"
  unfolding starts_def
proof
  fix w
  obtain r w1 where m: "m w = (r, w1)" by (cases "m w")
  from assms(1) have "\<exists>evs. trace (snd (m w)) = trace w @ e # evs"
    unfolding starts_def by (rule spec)
  with m obtain evs1 where e1: "trace w1 = trace w @ e # evs1" by auto
  show "\<exists>evs. trace (snd (io_try m h w)) = trace w @ e # evs"
  proof (cases r)
    case (Inr x)
    with m e1 show ?thesis by (simp add: io_try_def)
  next
    case (Inl x)
    obtain r2 w2 where f: "h x w1 = (r2, w2)" by (cases "h x w1")
    from emitsD [OF assms(2) f] obtain evs2 where "trace w2 = trace w1 @ evs2" by blast
    with m e1 Inl f show ?thesis by (simp add: io_try_def)
  qed
qed

lemma emits_any_restart_loop: "emits (\<lambda>e. True) (restart_loop env cmds)"
proof (induction cmds)
  case Nil
  show ?case by (simp add: emits_intros emits_any_log)
next
  case (Cons cmd rest)
  show ?case
    unfolding restart_loop.simps check_call_def
    by (intro emits_intros emits_step emits_any_log Cons) simp_all
qed

lemma restart_loop_first:
  "starts (CheckCall ([''sudo''] @ cmd)) (restart_loop env (cmd # rest))"
  unfolding restart_loop.simps check_call_def
  by (intro starts_bind starts_try starts_step emits_intros emits_any_log emits_any_restart_loop)

lemma tor_reload_service_answer:
  assumes "log env ''Attempting to restart 'tor' service (requires sudo).'' w = (Inr (), w1)"
    and "step env (Input
        ''This will run 'sudo systemctl restart tor' (or 'service tor restart'). Continue? [y/N] >> '')
        0 w1 = (Inr n, w2)"
  shows "tor_reload_service env w
     = (if lower (strip (reply env n)) \<noteq> ''y''
        then io_bind (log env ''User declined to restart tor service.'') (\<lambda>_. io_return False) w2
        else restart_loop env
              [[''systemctl'', ''restart'', ''tor''], [''service'', ''tor'', ''restart'']] w2)"
  using assms
  by (simp add: tor_reload_service_def input_line_def io_bind_def io_return_def Let_def)

text \<open>
  C2. The control-port attempt is \<open>tor_newnym_via_control\<close>; its caller is
  \<open>tor_change_identity\<close>. The attempt never prompts and never runs a command,
  whatever fails, and it returns \<open>True\<close> only when the connection, both sends, both
  replies (each starting with \<open>250\<close>) and the close succeeded: a failing
  control-port phase is reported to the caller, and no restart is started within the
  attempt. The fallback is the caller's step, taken after the attempt has returned: on
  \<open>True\<close> and on an exception the caller starts no restart, and on \<open>False\<close> it
  goes on to \<open>tor_reload_service\<close>, which asks for confirmation and runs the
  restart commands, \<open>sudo systemctl restart tor\<close> first, only on the answer \<open>y\<close>.
\<close>

theorem tor_fallback_in_adapter:
  "(\<exists>evs. trace (snd (tor_newnym_via_control env h p pw t w)) = trace w @ evs
       \<and> list_all (\<lambda>e. \<not> is_restart e) evs)
   \<and> (tor_newnym_via_control env h p pw t w = (Inr True, w')
       \<longrightarrow> (\<exists>w1 w2 n3 w3 w4 n5 w5.
           sock_connect env h p t w = (Inr (), w1)
         \<and> sock_send env (if truthy pw
                    then ''AUTHENTICATE '' @ [CHR 0x22] @ the pw @ [CHR 0x22] @ crlf
                    else ''AUTHENTICATE'' @ crlf) w1 = (Inr (), w2)
         \<and> step env SockRecv 0 w2 = (Inr n3, w3) \<and> startswith (reply env n3) ''250''
         \<and> sock_send env (''SIGNAL NEWNYM'' @ crlf) w3 = (Inr (), w4)
         \<and> step env SockRecv 0 w4 = (Inr n5, w5) \<and> startswith (reply env n5) ''250''
         \<and> sock_close env w5 = (Inr (), w')))
   \<and> (tor_newnym_via_control env ''127.0.0.1'' 9051 pw 5 w = (Inr True, v1)
       \<longrightarrow> tor_change_identity env pw w
           = io_bind (log env ''Requested NEWNYM via Tor control port.'') (\<lambda>_. io_return True) v1)
   \<and> (tor_newnym_via_control env ''127.0.0.1'' 9051 pw 5 w = (Inl e, v1)
       \<longrightarrow> tor_change_identity env pw w = (Inl e, v1))
   \<and> (tor_newnym_via_control env ''127.0.0.1'' 9051 pw 5 w = (Inr False, v1)
       \<longrightarrow> tor_change_identity env pw w
           = io_bind (log env ''Tor control port NEWNYM failed; falling back to service restart.'')
               (\<lambda>_. tor_reload_service env) v1)
   \<and> (log env ''Attempting to restart 'tor' service (requires sudo).'' v1 = (Inr (), v2)
        \<and> step env (Input
             ''This will run 'sudo systemctl restart tor' (or 'service tor restart'). Continue? [y/N] >> '')
             0 v2 = (Inr n, v3)
       \<longrightarrow> tor_reload_service env v1
           = (if lower (strip (reply env n)) \<noteq> ''y''
              then io_bind (log env ''User declined to restart tor service.'')
                     (\<lambda>_. io_return False) v3
              else restart_loop env
                     [[''systemctl'', ''restart'', ''tor''], [''service'', ''tor'', ''restart'']] v3))
   \<and> (\<exists>evs. trace (snd (restart_loop env
                 [[''systemctl'', ''restart'', ''tor''], [''service'', ''tor'', ''restart'']] v3))
          = trace v3 @ CheckCall [''sudo'', ''systemctl'', ''restart'', ''tor''] # evs)"
proof (intro conjI impI)
  show "\<exists>evs. trace (snd (tor_newnym_via_control env h p pw t w)) = trace w @ evs
       \<and> list_all (\<lambda>e. \<not> is_restart e) evs"
    using newnym_no_restart [of env h p pw t] unfolding emits_def by (rule spec)
  show "\<exists>w1 w2 n3 w3 w4 n5 w5.
           sock_connect env h p t w = (Inr (), w1)
         \<and> sock_send env (if truthy pw
                    then ''AUTHENTICATE '' @ [CHR 0x22] @ the pw @ [CHR 0x22] @ crlf
                    else ''AUTHENTICATE'' @ crlf) w1 = (Inr (), w2)
         \<and> step env SockRecv 0 w2 = (Inr n3, w3) \<and> startswith (reply env n3) ''250''
         \<and> sock_send env (''SIGNAL NEWNYM'' @ crlf) w3 = (Inr (), w4)
         \<and> step env SockRecv 0 w4 = (Inr n5, w5) \<and> startswith (reply env n5) ''250''
         \<and> sock_close env w5 = (Inr (), w')"
    if "tor_newnym_via_control env h p pw t w = (Inr True, w')"
    using that by (rule newnym_True)
  show "tor_change_identity env pw w
           = io_bind (log env ''Requested NEWNYM via Tor control port.'') (\<lambda>_. io_return True) v1"
    if "tor_newnym_via_control env ''127.0.0.1'' 9051 pw 5 w = (Inr True, v1)"
    using that by (simp add: tor_change_identity_def io_bind_def)
  show "tor_change_identity env pw w = (Inl e, v1)"
    if "tor_newnym_via_control env ''127.0.0.1'' 9051 pw 5 w = (Inl e, v1)"
    using that by (simp add: tor_change_identity_def io_bind_def)
  show "tor_change_identity env pw w
           = io_bind (log env ''Tor control port NEWNYM failed; falling back to service restart.'')
               (\<lambda>_. tor_reload_service env) v1"
    if "tor_newnym_via_control env ''127.0.0.1'' 9051 pw 5 w = (Inr False, v1)"
    using that by (simp add: tor_change_identity_def io_bind_def)
  show "tor_reload_service env v1
           = (if lower (strip (reply env n)) \<noteq> ''y''
              then io_bind (log env ''User declined to restart tor service.'')
                     (\<lambda>_. io_return False) v3
              else restart_loop env
                     [[''systemctl'', ''restart'', ''tor''], [''service'', ''tor'', ''restart'']] v3)"
    if "log env ''Attempting to restart 'tor' service (requires sudo).'' v1 = (Inr (), v2)
        \<and> step env (Input
             ''This will run 'sudo systemctl restart tor' (or 'service tor restart'). Continue? [y/N] >> '')
             0 v2 = (Inr n, v3)"
    using that tor_reload_service_answer by blast
  show "\<exists>evs. trace (snd (restart_loop env
                 [[''systemctl'', ''restart'', ''tor''], [''service'', ''tor'', ''restart'']] v3))
          = trace v3 @ CheckCall [''sudo'', ''systemctl'', ''restart'', ''tor''] # evs"
    using restart_loop_first [of "[''systemctl'', ''restart'', ''tor'']" env
            "[[''service'', ''tor'', ''restart'']]"]
    unfolding starts_def by simp
qed

theorem tor_fallback_in_adapter_witness:
  "tor_newnym_via_control env_tor_down ''127.0.0.1'' 9051 None 5 w_init = (Inr False, w_refused)
   \<and> tor_change_identity env_tor_down None w_init
       = io_bind (log env_tor_down ''Tor control port NEWNYM failed; falling back to service restart.'')
               (\<lambda>_. tor_reload_service env_tor_down) w_refused
   \<and> (\<exists>evs. trace w_refused = trace w_init @ evs \<and> list_all (\<lambda>e. \<not> is_restart e) evs)
   \<and> tor_newnym_via_control env_calm ''127.0.0.1'' 9051 None 5 w_init = (Inr True, w_newnym)
   \<and> tor_change_identity env_calm None w_init
       = io_bind (log env_calm ''Requested NEWNYM via Tor control port.'') (\<lambda>_. io_return True)
           w_newnym
   \<and> (\<exists>n3 n5. startswith (reply env_calm n3) ''250'' \<and> startswith (reply env_calm n5) ''250'')"
proof -
  have f: "tor_newnym_via_control env_tor_down ''127.0.0.1'' 9051 None 5 w_init = (Inr False, w_refused)"
    by (simp add: tor_newnym_via_control_def run_defs env_tor_down_def env_calm_def w_init_def
          w_refused_def)
  note t = tor_fallback_in_adapter [of env_tor_down "''127.0.0.1''" 9051 None 5 w_init _ _ _ w_refused]
  from t f have a: "tor_change_identity env_tor_down None w_init
       = io_bind (log env_tor_down ''Tor control port NEWNYM failed; falling back to service restart.'')
               (\<lambda>_. tor_reload_service env_tor_down) w_refused"
    by blast
  from t f have b: "\<exists>evs. trace w_refused = trace w_init @ evs \<and> list_all (\<lambda>e. \<not> is_restart e) evs"
    by simp
  have g: "tor_newnym_via_control env_calm ''127.0.0.1'' 9051 None 5 w_init = (Inr True, w_newnym)"
    by (simp add: tor_newnym_via_control_def run_defs env_calm_def w_init_def w_newnym_def
          startswith_def crlf_def)
  note u = tor_fallback_in_adapter
      [of env_calm "''127.0.0.1''" 9051 None 5 w_init w_newnym w_newnym]
  have c: "tor_change_identity env_calm None w_init
       = io_bind (log env_calm ''Requested NEWNYM via Tor control port.'') (\<lambda>_. io_return True)
           w_newnym"
    using u [THEN conjunct2, THEN conjunct2, THEN conjunct1, THEN mp, OF g] .
  from u [THEN conjunct2, THEN conjunct1, THEN mp, OF g]
  have d: "\<exists>n3 n5. startswith (reply env_calm n3) ''250'' \<and> startswith (reply env_calm n5) ''250''"
    by blast
  from f a b g c d show ?thesis by blast
qed

section \<open>Errors while the lists are prepared\<close>

lemma prepare_open_fails:
  assumes "truthy (proxy_list a)" "step env (OpenRead (the (proxy_list a))) 0 w = (Inl e, w1)"
  shows "prepare_lists env a w = (Inl e, w1)"
  using assms
  by (simp add: prepare_lists_def load_proxy_list_def open_lines_def io_bind_def)

lemma prepare_listdir_fails:
  assumes "\<not> truthy (proxy_list a)" "truthy (ovpn_dir a)"
    "step env (ListDir (the (ovpn_dir a))) 0 w = (Inl e, w1)"
  shows "prepare_lists env a w = (Inl e, w1)"
  using assms
  by (simp add: prepare_lists_def find_ovpn_files_def listdir_def io_bind_def io_return_def)

lemma prepare_listdir_fails_after_load:
  assumes "truthy (proxy_list a)" "load_proxy_list env (the (proxy_list a)) w = (Inr ps, v1)"
    "log env (''Loaded '' @ str_nat (length ps) @ '' proxies from '' @ the (proxy_list a)) v1
       = (Inr (), v2)"
    "truthy (ovpn_dir a)" "step env (ListDir (the (ovpn_dir a))) 0 v2 = (Inl e, v3)"
  shows "prepare_lists env a w = (Inl e, v3)"
  using assms
  by (simp add: prepare_lists_def find_ovpn_files_def listdir_def io_bind_def io_return_def)

lemma run_loop_prepare_fails:
  "prepare_lists env a w = (Inl e, w1) \<Longrightarrow> run_loop fuel env a w = Some (Inl e, w1)"
  by (simp add: run_loop_def)

lemma starts_log: "starts (LogWrite msg) (log env msg)"
  unfolding log_def by (intro starts_bind starts_step emits_intros)

lemma main_fatal:
  assumes "io_bind (raw_log env (''AutoChanger started. Mode: '' @ mode_str (mode a))) (\<lambda>_.
             if dry_run a
             then raw_log env ''Dry-run mode enabled. Privileged actions will NOT run.''
             else io_return ()) w = (Inr (), w0)"
    and "run_loop fuel env a (w0\<lparr>stop_event := False\<rparr>) = Some (Inl e, w1)"
  shows "\<exists>x w2 evs. main fuel env a w = Some (Inl x, w2)
           \<and> trace w2 = trace w1 @ LogWrite (''Fatal error: '' @ exc_str e) # evs
           \<and> (log env (''Fatal error: '' @ exc_str e) w1 = (Inr (), w2) \<longrightarrow> x = e)"
proof -
  let ?msg = "''Fatal error: '' @ exc_str e"
  obtain r w2 where l: "log env ?msg w1 = (r, w2)" by (cases "log env ?msg w1")
  have "\<exists>evs. trace (snd (log env ?msg w1)) = trace w1 @ LogWrite ?msg # evs"
    using starts_log [of ?msg env] unfolding starts_def by (rule spec)
  with l obtain evs where t: "trace w2 = trace w1 @ LogWrite ?msg # evs" by auto
  have m: "main fuel env a w = Some (io_bind (log env ?msg) (\<lambda>_. io_raise e) w1)"
    using assms by (simp add: main_def)
  show ?thesis
  proof (cases r)
    case (Inl x)
    with l m t show ?thesis by (simp add: io_bind_def)
  next
    case (Inr u)
    with l m t show ?thesis by (simp add: io_bind_def io_raise_def)
  qed
qed

lemma emits_any_wait_or_stop: "emits (\<lambda>e. True) (wait_or_stop env a)"
  unfolding emits_def wait_or_stop_def Let_def
proof
  fix w
  from wait_loop_emits [of env "1000 * interval a" "clock w" w]
  show "\<exists>evs. trace (snd (wait_loop env (1000 * interval a) (clock w) w)) = trace w @ evs
          \<and> list_all (\<lambda>e. True) evs"
    by (auto simp: list_all_iff)
qed

lemma marks_bind1:
  assumes "marks e m" "\<And>x. emits (\<lambda>e. True) (f x)"
  shows "marks e (io_bind m f)"
  unfolding marks_def
proof (intro allI impI)
  fix w y w'
  assume "io_bind m f w = (Inr y, w')"
  then obtain x w1 where m: "m w = (Inr x, w1)" and f: "f x w1 = (Inr y, w')"
    by (rule io_bind_Inr)
  from assms(1) m have "e \<in> set (trace w1)" unfolding marks_def by blast
  moreover from emitsD [OF assms(2) f] obtain evs where "trace w' = trace w1 @ evs" by blast
  ultimately show "e \<in> set (trace w')" by simp
qed

lemma marks_bind2:
  assumes "\<And>x. marks e (f x)"
  shows "marks e (io_bind m f)"
  unfolding marks_def
proof (intro allI impI)
  fix w y w'
  assume "io_bind m f w = (Inr y, w')"
  then obtain x w1 where "f x w1 = (Inr y, w')" by (rule io_bind_Inr)
  with assms [of x] show "e \<in> set (trace w')" unfolding marks_def by blast
qed

lemma marks_log: "marks (LogWrite msg) (log env msg)"
  unfolding marks_def
proof (intro allI impI)
  fix w x w'
  assume l: "log env msg w = (Inr x, w')"
  have "\<exists>evs. trace (snd (log env msg w)) = trace w @ LogWrite msg # evs"
    using starts_log [of msg env] unfolding starts_def by (rule spec)
  with l show "LogWrite msg \<in> set (trace w')" by auto
qed

lemma body_marks_idle:
  assumes "mode a = Proxy"
  shows "marks (LogWrite ''No proxies provided; sleeping.'') (iteration_body env a [] cs i)"
proof -
  have tail: "emits (\<lambda>e. True)
     (io_bind (if mode a = Vpn \<and> cs = []
              then io_bind (log env ''No .ovpn files provided; sleeping.'') (\<lambda>_. wait_or_stop env a)
              else io_return ()) (\<lambda>_.
       if run_once a then
         io_bind (log env ''run_once specified; exiting loop.'') (\<lambda>_. io_return True)
       else if count a \<noteq> 0 \<and> i \<ge> count a then
         io_bind (log env (''Reached count '' @ str_int (count a) @ '', exiting.''))
           (\<lambda>_. io_return True)
       else io_return False))"
    by (intro emits_intros emits_any_log emits_any_wait_or_stop)
  have idle: "marks (LogWrite ''No proxies provided; sleeping.'')
     (io_bind (log env ''No proxies provided; sleeping.'') (\<lambda>_. wait_or_stop env a))"
    by (intro marks_bind1 marks_log emits_any_wait_or_stop)
  show ?thesis
    unfolding iteration_body_def
    apply (rule marks_bind2)
    apply (rule marks_bind2)
    apply (rule marks_bind2)
    apply (rule marks_bind2)
    apply (rule marks_bind1)
    using assms idle apply simp
    using tail apply simp
    done
qed

lemma steady_idle_body:
  assumes "calm env" "mode a = Proxy"
  shows "steady (iteration_body env a [] [] i)"
  unfolding iteration_body_def using assms
  by (intro steady_intros steady_log steady_wait_or_stop) simp_all

lemma idle_run:
  assumes "calm env" "0 \<le> wait_after_change a" "\<not> stop_event w" "mode a = Proxy"
    "\<not> truthy (proxy_list a)" "\<not> truthy (ovpn_dir a)" "run_once a"
  shows "\<exists>w'. run_loop (Suc fuel) env a w = Some (Inr (), w')
           \<and> LogWrite ''No proxies provided; sleeping.'' \<in> set (trace w')"
proof -
  have p: "prepare_lists env a w = (Inr ([], []), w)"
    using assms by (simp add: prepare_lists_def io_bind_def io_return_def)
  from steady_idle_body [OF assms(1,4), of "0 + 1"]
  obtain x w4 where b0: "iteration_body env a [] [] (0 + 1) w = (Inr x, w4)"
    and s4: "stop_event w4 = stop_event w"
    unfolding steady_def by blast
  from iteration_body_break [of a "0 + 1" env "[]" "[]"] b0 assms(7) have x
    unfolding returns_def by blast
  with b0 have b: "iteration_body env a [] [] (0 + 1) w = (Inr True, w4)" by simp
  from body_marks_idle [OF assms(4), of env "[]" "0 + 1"] b
  have m4: "LogWrite ''No proxies provided; sleeping.'' \<in> set (trace w4)"
    unfolding marks_def by blast
  from steady_log [OF assms(1), of "''AutoChanger finished.''"]
  obtain u5 w5 where 5: "log env ''AutoChanger finished.'' w4 = (Inr u5, w5)"
    unfolding steady_def by blast
  from emitsD [OF emits_any_log 5] obtain e5 where t5: "trace w5 = trace w4 @ e5" by blast
  have "run_loop (Suc fuel) env a w = Some (Inr (), w5)"
    using p b assms(3) 5 by (simp add: run_loop_def)
  moreover have "LogWrite ''No proxies provided; sleeping.'' \<in> set (trace w5)"
    using m4 t5 by simp
  ultimately show ?thesis by blast
qed

text \<open>
  C10. When opening the proxy list raises, or listing the VPN directory raises (with
  no proxy list configured, or after the proxy list was loaded and logged),
  \<open>run_loop\<close> ends with that error before its loop starts, whatever the fuel.
  When \<open>run_loop\<close> ends with an error, \<open>main\<close> logs \<open>Fatal error: \<close> and the
  text of the error next and ends with an error as well: the same one when that log
  line is written. By contrast, in proxy mode with no list and no directory configured,
  when nothing raises and no signal arrives, a \<open>run_once\<close> run returns normally
  having logged that there are no proxies.
\<close>

theorem list_errors_are_fatal:
  "(truthy (proxy_list a) \<and> step env (OpenRead (the (proxy_list a))) 0 w = (Inl e, w1)
      \<longrightarrow> run_loop fuel env a w = Some (Inl e, w1))
   \<and> (\<not> truthy (proxy_list a) \<and> truthy (ovpn_dir a)
        \<and> step env (ListDir (the (ovpn_dir a))) 0 w = (Inl e, w1)
      \<longrightarrow> run_loop fuel env a w = Some (Inl e, w1))
   \<and> (truthy (proxy_list a) \<and> load_proxy_list env (the (proxy_list a)) w = (Inr ps, v1)
        \<and> log env (''Loaded '' @ str_nat (length ps) @ '' proxies from '' @ the (proxy_list a)) v1
            = (Inr (), v2)
        \<and> truthy (ovpn_dir a) \<and> step env (ListDir (the (ovpn_dir a))) 0 v2 = (Inl e, v3)
      \<longrightarrow> run_loop fuel env a w = Some (Inl e, v3))
   \<and> (io_bind (raw_log env (''AutoChanger started. Mode: '' @ mode_str (mode a))) (\<lambda>_.
             if dry_run a
             then raw_log env ''Dry-run mode enabled. Privileged actions will NOT run.''
             else io_return ()) s0 = (Inr (), s1)
        \<and> run_loop fuel env a (s1\<lparr>stop_event := False\<rparr>) = Some (Inl e, s2)
      \<longrightarrow> (\<exists>x s3 evs. main fuel env a s0 = Some (Inl x, s3)
             \<and> trace s3 = trace s2 @ LogWrite (''Fatal error: '' @ exc_str e) # evs
             \<and> (log env (''Fatal error: '' @ exc_str e) s2 = (Inr (), s3) \<longrightarrow> x = e)))
   \<and> (calm env \<and> 0 \<le> wait_after_change a \<and> \<not> stop_event w \<and> mode a = Proxy
        \<and> \<not> truthy (proxy_list a) \<and> \<not> truthy (ovpn_dir a) \<and> run_once a
      \<longrightarrow> (\<exists>w'. run_loop (Suc fuel) env a w = Some (Inr (), w')
             \<and> LogWrite ''No proxies provided; sleeping.'' \<in> set (trace w')))"
proof (intro conjI impI)
  show "run_loop fuel env a w = Some (Inl e, w1)"
    if "truthy (proxy_list a) \<and> step env (OpenRead (the (proxy_list a))) 0 w = (Inl e, w1)"
    using that prepare_open_fails run_loop_prepare_fails by blast
  show "run_loop fuel env a w = Some (Inl e, w1)"
    if "\<not> truthy (proxy_list a) \<and> truthy (ovpn_dir a)
        \<and> step env (ListDir (the (ovpn_dir a))) 0 w = (Inl e, w1)"
    using that prepare_listdir_fails run_loop_prepare_fails by blast
  show "run_loop fuel env a w = Some (Inl e, v3)"
    if "truthy (proxy_list a) \<and> load_proxy_list env (the (proxy_list a)) w = (Inr ps, v1)
        \<and> log env (''Loaded '' @ str_nat (length ps) @ '' proxies from '' @ the (proxy_list a)) v1
            = (Inr (), v2)
        \<and> truthy (ovpn_dir a) \<and> step env (ListDir (the (ovpn_dir a))) 0 v2 = (Inl e, v3)"
    using that prepare_listdir_fails_after_load run_loop_prepare_fails by blast
  show "\<exists>x s3 evs. main fuel env a s0 = Some (Inl x, s3)
             \<and> trace s3 = trace s2 @ LogWrite (''Fatal error: '' @ exc_str e) # evs
             \<and> (log env (''Fatal error: '' @ exc_str e) s2 = (Inr (), s3) \<longrightarrow> x = e)"
    if "io_bind (raw_log env (''AutoChanger started. Mode: '' @ mode_str (mode a))) (\<lambda>_.
             if dry_run a
             then raw_log env ''Dry-run mode enabled. Privileged actions will NOT run.''
             else io_return ()) s0 = (Inr (), s1)
        \<and> run_loop fuel env a (s1\<lparr>stop_event := False\<rparr>) = Some (Inl e, s2)"
    using that main_fatal by blast
  show "\<exists>w'. run_loop (Suc fuel) env a w = Some (Inr (), w')
             \<and> LogWrite ''No proxies provided; sleeping.'' \<in> set (trace w')"
    if "calm env \<and> 0 \<le> wait_after_change a \<and> \<not> stop_event w \<and> mode a = Proxy
        \<and> \<not> truthy (proxy_list a) \<and> \<not> truthy (ovpn_dir a) \<and> run_once a"
    using that idle_run by blast
qed

theorem list_errors_are_fatal_witness:
  "truthy (proxy_list args_nofile)
   \<and> step env_nofile (OpenRead (the (proxy_list args_nofile))) 0 w_started
       = (Inl (Exc FileNotFoundError ''[Errno 2] No such file or directory''), w_nofile)
   \<and> run_loop 1 env_nofile args_nofile w_started
       = Some (Inl (Exc FileNotFoundError ''[Errno 2] No such file or directory''), w_nofile)
   \<and> main 1 env_nofile args_nofile w_init
       = Some (Inl (Exc FileNotFoundError ''[Errno 2] No such file or directory''), w_fatal)
   \<and> (\<exists>x s3 evs. main 1 env_nofile args_nofile w_init = Some (Inl x, s3)
         \<and> trace s3 = trace w_nofile @ LogWrite ''Fatal error: [Errno 2] No such file or directory'' # evs)
   \<and> calm env_calm \<and> mode (args_idle\<lparr>run_once := True\<rparr>) = Proxy
   \<and> (\<exists>w'. run_loop 1 env_calm (args_idle\<lparr>run_once := True\<rparr>) w_init = Some (Inr (), w')
         \<and> LogWrite ''No proxies provided; sleeping.'' \<in> set (trace w'))"
proof -
  let ?e = "Exc FileNotFoundError ''[Errno 2] No such file or directory''"
  have h1: "truthy (proxy_list args_nofile)" by (simp add: args_nofile_def)
  have h2: "step env_nofile (OpenRead (the (proxy_list args_nofile))) 0 w_started = (Inl ?e, w_nofile)"
    by (simp add: run_defs env_nofile_def env_calm_def args_nofile_def w_started_def w_nofile_def)
  have s: "w_started\<lparr>stop_event := False\<rparr> = w_started" by (simp add: w_started_def)
  have h3: "io_bind (raw_log env_nofile (''AutoChanger started. Mode: '' @ mode_str (mode args_nofile)))
             (\<lambda>_. if dry_run args_nofile
             then raw_log env_nofile ''Dry-run mode enabled. Privileged actions will NOT run.''
             else io_return ()) w_init = (Inr (), w_started)"
    by (simp add: run_defs env_nofile_def env_calm_def args_nofile_def w_started_def w_init_def)
  have r: "run_loop 1 env_nofile args_nofile w_started = Some (Inl ?e, w_nofile)"
    using list_errors_are_fatal [of args_nofile env_nofile w_started ?e w_nofile 1 "[]" w_init
      w_init w_init w_init w_started w_nofile, THEN conjunct1, THEN mp, OF conjI [OF h1 h2]] .
  have pre: "io_bind (raw_log env_nofile (''AutoChanger started. Mode: '' @ mode_str (mode args_nofile)))
             (\<lambda>_. if dry_run args_nofile
             then raw_log env_nofile ''Dry-run mode enabled. Privileged actions will NOT run.''
             else io_return ()) w_init = (Inr (), w_started)
        \<and> run_loop 1 env_nofile args_nofile (w_started\<lparr>stop_event := False\<rparr>) = Some (Inl ?e, w_nofile)"
    using h3 r s by simp
  note t = list_errors_are_fatal [of args_nofile env_nofile w_started ?e w_nofile 1 "[]" w_init
      w_init w_init w_init w_started w_nofile]
  from t [THEN conjunct2, THEN conjunct2, THEN conjunct2, THEN conjunct1, THEN mp, OF pre]
  obtain x s3 evs where "main 1 env_nofile args_nofile w_init = Some (Inl x, s3)"
    "trace s3 = trace w_nofile @ LogWrite (''Fatal error: '' @ exc_str ?e) # evs"
    by blast
  then have m: "\<exists>x s3 evs. main 1 env_nofile args_nofile w_init = Some (Inl x, s3)
         \<and> trace s3 = trace w_nofile @ LogWrite ''Fatal error: [Errno 2] No such file or directory'' # evs"
    by simp
  have m0: "main 1 env_nofile args_nofile w_init
      = Some (io_bind (log env_nofile (''Fatal error: '' @ exc_str ?e)) (\<lambda>_. io_raise ?e) w_nofile)"
    using pre by (simp add: main_def)
  have m1: "io_bind (log env_nofile (''Fatal error: '' @ exc_str ?e)) (\<lambda>_. io_raise ?e) w_nofile
      = (Inl ?e, w_fatal)"
    by (simp add: run_defs env_nofile_def env_calm_def w_nofile_def w_fatal_def)
  have mc: "main 1 env_nofile args_nofile w_init = Some (Inl ?e, w_fatal)"
    using m0 m1 by simp
  have i: "0 \<le> wait_after_change (args_idle\<lparr>run_once := True\<rparr>)" "\<not> stop_event w_init"
    "mode (args_idle\<lparr>run_once := True\<rparr>) = Proxy"
    "\<not> truthy (proxy_list (args_idle\<lparr>run_once := True\<rparr>))"
    "\<not> truthy (ovpn_dir (args_idle\<lparr>run_once := True\<rparr>))" "run_once (args_idle\<lparr>run_once := True\<rparr>)"
    by (simp_all add: args_idle_def w_init_def)
  have pre2: "calm env_calm \<and> 0 \<le> wait_after_change (args_idle\<lparr>run_once := True\<rparr>)
        \<and> \<not> stop_event w_init \<and> mode (args_idle\<lparr>run_once := True\<rparr>) = Proxy
        \<and> \<not> truthy (proxy_list (args_idle\<lparr>run_once := True\<rparr>))
        \<and> \<not> truthy (ovpn_dir (args_idle\<lparr>run_once := True\<rparr>))
        \<and> run_once (args_idle\<lparr>run_once := True\<rparr>)"
    using i calm_env_calm by simp
  note u = list_errors_are_fatal [of "args_idle\<lparr>run_once := True\<rparr>" env_calm w_init ?e w_init 0
      "[]" w_init w_init w_init w_init w_init w_init]
  have d: "\<exists>w'. run_loop 1 env_calm (args_idle\<lparr>run_once := True\<rparr>) w_init = Some (Inr (), w')
         \<and> LogWrite ''No proxies provided; sleeping.'' \<in> set (trace w')"
    using u [THEN conjunct2, THEN conjunct2, THEN conjunct2, THEN conjunct2, THEN mp, OF pre2]
    by simp
  from h1 h2 r mc m calm_env_calm i(3) d show ?thesis by blast
qed

section \<open>Dry run and the interval in Tor mode\<close>

lemma str_int_small: "str_int 1 = ''1''" "str_int 2 = ''2''" "str_int 5 = ''5''"
  by code_simp+

lemmas string_defs = strip_def isspace_def lower_def lower_char_def startswith_def endswith_def
  str_int_small crlf_def

lemmas tor_defs = main_def run_loop_def prepare_lists_def iteration_body_def run_once_tor_def
  tor_change_identity_def tor_newnym_via_control_def tor_reload_service_def

lemma wait_or_stop_dry: "wait_or_stop env (a\<lparr>dry_run := b\<rparr>) = wait_or_stop env a"
  by (rule ext) (simp add: wait_or_stop_def)

lemma proxy_loop_dry: "proxy_loop env (a\<lparr>dry_run := b\<rparr>) ps = proxy_loop env a ps"
proof (induction ps)
  case Nil
  show ?case by (rule ext) simp
next
  case (Cons p ps)
  show ?case by (rule ext) (simp add: Cons run_once_proxy_def wait_or_stop_dry)
qed

lemma run_once_vpn_dry: "run_once_vpn env (a\<lparr>dry_run := b\<rparr>) cfg = run_once_vpn env a cfg"
  by (simp add: run_once_vpn_def Let_def cong: option.case_cong)

lemma vpn_loop_dry: "vpn_loop env (a\<lparr>dry_run := b\<rparr>) cs = vpn_loop env a cs"
proof (induction cs)
  case Nil
  show ?case by (rule ext) simp
next
  case (Cons c cs)
  show ?case by (rule ext) (simp add: Cons run_once_vpn_dry wait_or_stop_dry)
qed

lemma run_once_tor_dry: "run_once_tor env (a\<lparr>dry_run := b\<rparr>) = run_once_tor env a"
  by (simp add: run_once_tor_def cong: if_cong)

lemma iteration_body_dry:
  "iteration_body env (a\<lparr>dry_run := b\<rparr>) ps cs i = iteration_body env a ps cs i"
  by (simp add: iteration_body_def proxy_loop_dry vpn_loop_dry wait_or_stop_dry run_once_tor_dry
        cong: if_cong)

lemma while_loop_dry:
  "while_loop fuel env (a\<lparr>dry_run := b\<rparr>) ps cs i w = while_loop fuel env a ps cs i w"
  by (induction fuel arbitrary: i w)
     (simp_all add: iteration_body_dry cong: prod.case_cong sum.case_cong if_cong)

lemma prepare_lists_dry: "prepare_lists env (a\<lparr>dry_run := b\<rparr>) = prepare_lists env a"
  by (simp add: prepare_lists_def del: str_nat.simps)

lemma run_loop_dry: "run_loop fuel env (a\<lparr>dry_run := b\<rparr>) w = run_loop fuel env a w"
  by (simp add: run_loop_def prepare_lists_dry while_loop_dry cong: prod.case_cong sum.case_cong)

text \<open>
  C1 does not hold of the code: \<open>dry_run\<close> is read only by \<open>main\<close>, for one log
  line. \<open>run_loop\<close> does the same with the flag set as without it, and a run with
  the flag set, in Tor mode, with the control port refusing the connection and the
  answer \<open>y\<close> at the prompt, opens the control socket and runs
  \<open>sudo systemctl restart tor\<close>.
\<close>

theorem dry_run_is_ignored:
  "run_loop fuel env (a\<lparr>dry_run := True\<rparr>) w = run_loop fuel env (a\<lparr>dry_run := False\<rparr>) w
   \<and> main 1 env_dry args_dry w_init = Some (Inr (), w_dry)"
proof
  show "run_loop fuel env (a\<lparr>dry_run := True\<rparr>) w = run_loop fuel env (a\<lparr>dry_run := False\<rparr>) w"
    by (simp add: run_loop_dry)
  show "main 1 env_dry args_dry w_init = Some (Inr (), w_dry)"
    by (simp add: tor_defs run_defs string_defs args_dry_def env_dry_def env_calm_def w_init_def
          w_dry_def)
qed

text \<open>
  C5 does not hold of the code in Tor mode: \<open>run_loop\<close> calls \<open>_wait_or_stop\<close>
  after each proxy and each VPN cycle, but not after \<open>run_once_tor\<close>. With an
  interval of 60 seconds and \<open>count = 2\<close>, the second identity change follows the
  first with no sleep but the settle time, and the run is over after 10 seconds.
\<close>

theorem tor_mode_no_interval:
  "main 2 env_tor_ok args_tor2 w_init = Some (Inr (), w_tor2)"
  by (simp add: tor_defs run_defs string_defs args_tor2_def env_tor_ok_def env_calm_def w_init_def
        w_tor2_def numeral_2_eq_2)

end
